theory Spec2Isabelle
  imports Complex_Main "HOL-Library.AList" "HOL-Library.Char_ord" "HOL-Library.List_Lexorder"
    "HOL-Library.Option_ord"
begin

section \<open>Values, rows and errors\<close>

text \<open>
  The source is Python 2. Its floats are modelled as \<^typ>\<open>real\<close> (exact arithmetic), its
  counters, which start at zero and are only ever incremented, as \<^typ>\<open>nat\<close>, and every
  exception that the modelled code can raise as a value of \<open>error\<close>; a fallible function
  returns \<open>error + 'a\<close> with \<open>Inl\<close> for the exception.

  A cell of a row is \<open>None\<close>, an \<open>int\<close>, a \<open>float\<close> or a \<open>str\<close>. Python identifies the
  keys \<open>1\<close> and \<open>1.0\<close>; the model keeps them apart, which agrees with the source on
  validated rows (\<open>Data.validate_row\<close> coerces all values of one attribute to one type).

  A \<open>dict\<close> is an association list with distinct keys, in insertion order; a read of a
  \<open>defaultdict\<close> is a lookup with the default. (The empty entries that such a read
  inserts in the source are not observable by the operations modelled here.)
\<close>

datatype error =
  AssertionError | KeyError | ZeroDivisionError | ValueError | TypeError
  | NodeNotReadyToPredict | Exception

datatype val = VNone | VInt int | VFloat real | VStr string

type_synonym row = "(string \<times> val) list"

definition bind_err :: "error + 'a \<Rightarrow> ('a \<Rightarrow> error + 'b) \<Rightarrow> error + 'b" where
  "bind_err m f = (case m of Inl e \<Rightarrow> Inl e | Inr x \<Rightarrow> f x)"

text \<open>\<open>a / float(b)\<close>: true division, \<open>ZeroDivisionError\<close> on a zero divisor.\<close>

definition fdiv :: "real \<Rightarrow> real \<Rightarrow> error + real" where
  "fdiv a b = (if b = 0 then Inl ZeroDivisionError else Inr (a / b))"

text \<open>\<open>math.log(x, n)\<close>: \<open>ValueError\<close> outside the domain, a zero division for base 1.\<close>

definition math_log :: "real \<Rightarrow> real \<Rightarrow> error + real" where
  "math_log x n =
     (if x \<le> 0 \<or> n \<le> 0 then Inl ValueError
      else if n = 1 then Inl ZeroDivisionError
      else Inr (log n x))"

text \<open>The number a cell stands for in arithmetic; \<open>None\<close> and strings have none.\<close>

fun num_of :: "val \<Rightarrow> real option" where
  "num_of (VInt i) = Some (real_of_int i)"
| "num_of (VFloat r) = Some r"
| "num_of _ = None"

text \<open>A read \<open>d[k]\<close> of a \<open>defaultdict(int)\<close> or \<open>defaultdict(float)\<close>.\<close>

definition get0 :: "('k \<times> 'a::zero) list \<Rightarrow> 'k \<Rightarrow> 'a" where
  "get0 d k = (case map_of d k of None \<Rightarrow> 0 | Some c \<Rightarrow> c)"

text \<open>\<open>d[k] += c\<close> on such a dictionary.\<close>

definition incr :: "'k \<Rightarrow> 'a::monoid_add \<Rightarrow> ('k \<times> 'a) list \<Rightarrow> ('k \<times> 'a) list" where
  "incr k c d = AList.update k (get0 d k + c) d"

section \<open>Distributions\<close>

subsection \<open>DDist\<close>

record ddist =
  counts :: "(val \<times> nat) list"
  total :: nat

definition DDist_clear :: ddist where
  "DDist_clear = \<lparr>counts = [], total = 0\<rparr>"

definition DDist_add :: "ddist \<Rightarrow> val \<Rightarrow> nat \<Rightarrow> ddist" where
  "DDist_add d k c = \<lparr>counts = incr k c (counts d), total = total d + c\<rparr>"

text \<open>\<open>DDist(seq)\<close>: the constructor counts every element of the sequence once.\<close>

definition DDist_init :: "val list \<Rightarrow> ddist" where
  "DDist_init seq = foldl (\<lambda>d k. DDist_add d k 1) DDist_clear seq"

text \<open>\<open>DDist.__getitem__\<close>: the probability of an element.\<close>

definition DDist_getitem :: "ddist \<Rightarrow> val \<Rightarrow> error + real" where
  "DDist_getitem d k =
     (let cnt = (case map_of (counts d) k of Some c \<Rightarrow> c | None \<Rightarrow> 0)
      in fdiv (real cnt) (real (total d)))"

text \<open>\<open>DDist.probs\<close>: one division per key, so an empty count map never divides.\<close>

fun probs_of :: "(val \<times> nat) list \<Rightarrow> nat \<Rightarrow> error + (val \<times> real) list" where
  "probs_of [] t = Inr []"
| "probs_of ((k, c) # kcs) t =
     bind_err (fdiv (real c) (real t)) (\<lambda>p.
     bind_err (probs_of kcs t) (\<lambda>ps. Inr ((k, p) # ps)))"

definition DDist_probs :: "ddist \<Rightarrow> error + (val \<times> real) list" where
  "DDist_probs d = probs_of (counts d) (total d)"

text \<open>
  \<open>DDist.best_prob\<close>: \<open>None\<close> for an empty distribution, else the largest probability
  (the fold starts from minus infinity, which every probability exceeds).
\<close>

fun max_prob :: "(val \<times> real) list \<Rightarrow> real option" where
  "max_prob [] = None"
| "max_prob ((k, p) # ps) = (case max_prob ps of None \<Rightarrow> Some p | Some q \<Rightarrow> Some (max p q))"

definition DDist_best_prob :: "ddist \<Rightarrow> error + real option" where
  "DDist_best_prob d = bind_err (DDist_probs d) (\<lambda>ps. Inr (max_prob ps))"

subsection \<open>CDist\<close>

record cdist =
  mean_sum :: real
  mean_count :: nat
  last_variance :: real

definition CDist_clear :: cdist where
  "CDist_clear = \<lparr>mean_sum = 0, mean_count = 0, last_variance = 0\<rparr>"

text \<open>The properties \<open>mean\<close> and \<open>variance\<close> return \<open>None\<close> while no sample was added.\<close>

definition CDist_mean :: "cdist \<Rightarrow> real option" where
  "CDist_mean c = (if mean_count c = 0 then None else Some (mean_sum c / real (mean_count c)))"

definition CDist_variance :: "cdist \<Rightarrow> real option" where
  "CDist_variance c =
     (if mean_count c = 0 then None else Some (last_variance c / real (mean_count c)))"

text \<open>\<open>CDist.__iadd__\<close> on a number.\<close>

definition CDist_iadd :: "cdist \<Rightarrow> real \<Rightarrow> cdist" where
  "CDist_iadd c x =
     (let last_mean = CDist_mean c;
          c1 = c\<lparr>mean_sum := mean_sum c + x, mean_count := mean_count c + 1\<rparr>
      in case last_mean of
           None \<Rightarrow> c1
         | Some lm \<Rightarrow>
             c1\<lparr>last_variance :=
                  last_variance c + (x - lm) * (x - mean_sum c1 / real (mean_count c1))\<rparr>)"

text \<open>
  \<open>CDist.__iadd__\<close> on a cell: \<open>self.mean_sum += value\<close> raises \<open>TypeError\<close> for \<open>None\<close> or a
  string, before anything of the distribution has changed.
\<close>

definition CDist_iadd_val :: "cdist \<Rightarrow> val \<Rightarrow> error + cdist" where
  "CDist_iadd_val c v = (case num_of v of None \<Rightarrow> Inl TypeError | Some x \<Rightarrow> Inr (CDist_iadd c x))"

text \<open>\<open>CDist(seq)\<close> on numbers, and on cells.\<close>

definition CDist_init :: "real list \<Rightarrow> cdist" where
  "CDist_init seq = foldl CDist_iadd CDist_clear seq"

fun CDist_fold_val :: "cdist \<Rightarrow> val list \<Rightarrow> error + cdist" where
  "CDist_fold_val c [] = Inr c"
| "CDist_fold_val c (v # vs) =
     (case CDist_iadd_val c v of Inl e \<Rightarrow> Inl e | Inr c' \<Rightarrow> CDist_fold_val c' vs)"

definition CDist_init_val :: "val list \<Rightarrow> error + cdist" where
  "CDist_init_val seq = CDist_fold_val CDist_clear seq"

section \<open>Metrics\<close>

datatype metric = ENTROPY1 | ENTROPY2 | ENTROPY3 | VARIANCE1 | VARIANCE2

definition CONTINUOUS_METRICS :: "metric list" where
  "CONTINUOUS_METRICS = [VARIANCE1, VARIANCE2]"

definition DISCRETE_METRICS :: "metric list" where
  "DISCRETE_METRICS = [ENTROPY1, ENTROPY2, ENTROPY3]"

subsection \<open>Mean and variance of a sequence\<close>

definition mean :: "real list \<Rightarrow> error + real" where
  "mean seq = fdiv (sum_list seq) (real (length seq))"

definition variance :: "real list \<Rightarrow> error + real" where
  "variance seq =
     bind_err (mean seq) (\<lambda>m.
       fdiv (sum_list (map (\<lambda>v. (v - m) ^ 2) seq)) (real (length seq)))"

text \<open>
  The numbers of a list of cells. \<open>sum(seq)\<close> raises \<open>TypeError\<close> on a cell that is not a
  number; on an empty list it is \<open>0\<close> and the division by the length fails instead.
\<close>

fun nums_of :: "val list \<Rightarrow> error + real list" where
  "nums_of [] = Inr []"
| "nums_of (v # vs) =
     (case num_of v of
        None \<Rightarrow> Inl TypeError
      | Some x \<Rightarrow> bind_err (nums_of vs) (\<lambda>xs. Inr (x # xs)))"

subsection \<open>Entropy of a count map\<close>

text \<open>\<open>record.get(attr)\<close>: a missing attribute reads as \<open>None\<close>.\<close>

definition row_get :: "row \<Rightarrow> string \<Rightarrow> val" where
  "row_get r a = (case map_of r a of None \<Rightarrow> VNone | Some v \<Rightarrow> v)"

text \<open>The value counts \<open>{value: count}\<close> of a list of cells, as floats.\<close>

definition value_counts :: "val list \<Rightarrow> (val \<times> real) list" where
  "value_counts vs = foldl (\<lambda>d v. incr v 1 d) [] vs"

text \<open>
  The sum \<open>sum((count/total)*math.log(count/total, n) for count in ...)\<close>, with the first
  error of the iteration.
\<close>

fun sum_plogp :: "real list \<Rightarrow> real \<Rightarrow> real \<Rightarrow> error + real" where
  "sum_plogp [] t n = Inr 0"
| "sum_plogp (c # cs) t n =
     bind_err (fdiv c t) (\<lambda>p.
     bind_err (math_log p n) (\<lambda>l.
     bind_err (sum_plogp cs t n) (\<lambda>s. Inr (p * l + s))))"

text \<open>
  The body of \<open>entropy\<close> once the counts are known (the source takes them from the caller
  when \<open>data\<close> is a \<open>dict\<close>; the counts are floats here, as \<open>entropy\<close> builds them).
\<close>

definition entropy_counts :: "(val \<times> real) list \<Rightarrow> metric \<Rightarrow> error + real" where
  "entropy_counts cs method =
     (let len_data = sum_list (map snd cs);
          n = max 2 (length cs);
          tot = sum_list (map snd cs)
      in if tot = 0 then Inl AssertionError
         else case method of
           ENTROPY1 \<Rightarrow>
             bind_err (sum_plogp (map snd cs) len_data (real n)) (\<lambda>s. Inr (- s))
         | ENTROPY2 \<Rightarrow>
             bind_err (sum_plogp (map snd cs) len_data (real n)) (\<lambda>s.
             bind_err (fdiv (real (length cs) - 1) tot) (\<lambda>q. Inr (- s - q)))
         | ENTROPY3 \<Rightarrow>
             bind_err (sum_plogp (map snd cs) len_data (real n)) (\<lambda>s.
             bind_err (fdiv (real (length cs) - 1) tot) (\<lambda>q. Inr (- s - 100 * q)))
         | _ \<Rightarrow> Inl Exception)"

text \<open>\<open>entropy(data, class_attr, method)\<close> on a list of rows.\<close>

definition entropy :: "row list \<Rightarrow> string \<Rightarrow> metric \<Rightarrow> error + real" where
  "entropy data class_attr method =
     entropy_counts (value_counts (map (\<lambda>r. row_get r class_attr) data)) method"

text \<open>\<open>entropy_variance(data, class_attr, method)\<close> on a list of rows.\<close>

definition entropy_variance :: "row list \<Rightarrow> string \<Rightarrow> metric \<Rightarrow> error + real" where
  "entropy_variance data class_attr method =
     (if method \<notin> set CONTINUOUS_METRICS then Inl AssertionError
      else bind_err (nums_of (map (\<lambda>r. row_get r class_attr) data)) variance)"

subsection \<open>Information gain on a list of rows\<close>

text \<open>
  The loop of \<open>gain\<close> over the values of the attribute: \<open>vf\<close> is the remaining part of
  \<open>val_freq\<close>, \<open>tot\<close> the sum of all its counts.
\<close>

fun subset_entropy ::
  "(row list \<Rightarrow> string \<Rightarrow> metric \<Rightarrow> error + real) \<Rightarrow> row list \<Rightarrow> string \<Rightarrow> string \<Rightarrow> metric
     \<Rightarrow> real \<Rightarrow> (val \<times> real) list \<Rightarrow> error + real" where
  "subset_entropy entropy_func data attr class_attr method tot [] = Inr 0"
| "subset_entropy entropy_func data attr class_attr method tot ((v, c) # vf) =
     bind_err (fdiv c tot) (\<lambda>val_prob.
     bind_err (entropy_func (filter (\<lambda>r. row_get r attr = v) data) class_attr method) (\<lambda>e.
     bind_err (subset_entropy entropy_func data attr class_attr method tot vf) (\<lambda>s.
       Inr (val_prob * e + s))))"

text \<open>
  \<open>gain\<close> with its defaults \<open>only_sub=0\<close> and \<open>prefer_fewer_values=False\<close>; the entropy
  function is the parameter \<open>entropy_func\<close> of the source.
\<close>

definition gain_with ::
  "(row list \<Rightarrow> string \<Rightarrow> metric \<Rightarrow> error + real) \<Rightarrow> row list \<Rightarrow> string \<Rightarrow> string \<Rightarrow> metric
     \<Rightarrow> error + real" where
  "gain_with entropy_func data attr class_attr method =
     (let val_freq = value_counts (map (\<lambda>r. row_get r attr) data)
      in bind_err (subset_entropy entropy_func data attr class_attr method
                     (sum_list (map snd val_freq)) val_freq) (\<lambda>sub.
         bind_err (entropy_func data class_attr method) (\<lambda>main_entropy.
           Inr (main_entropy - sub))))"

definition gain :: "row list \<Rightarrow> string \<Rightarrow> string \<Rightarrow> metric \<Rightarrow> error + real" where
  "gain = gain_with entropy"

definition gain_variance :: "row list \<Rightarrow> string \<Rightarrow> string \<Rightarrow> metric \<Rightarrow> error + real" where
  "gain_variance = gain_with entropy_variance"

section \<open>The tree's settings and its nodes\<close>

datatype attr_type = NOM | DIS | CON

definition USE_NEAREST :: string where
  "USE_NEAREST = ''use_nearest''"

text \<open>
  What a \<open>Node\<close> reads of its \<open>Tree\<close> and of the tree's \<open>Data\<close> schema, and the one field
  it writes, \<open>leaf_count\<close>. \<open>is_continuous_class\<close> is the schema's answer to whether the
  class attribute has type \<open>continuous\<close>; \<open>leaf_threshold\<close> may be \<open>None\<close>.
\<close>

record tree =
  class_attribute_name :: string
  is_continuous_class :: bool
  header_types :: "(string \<times> attr_type) list"
  metric :: metric
  splitting_n :: int
  leaf_threshold :: "real option"
  auto_grow :: bool
  missing_value_policy :: "(string \<times> string) list"
  leaf_count :: int

text \<open>
  The fields of a \<open>Node\<close> but its children. The sample count \<open>n\<close> of the source is
  \<open>node_n\<close> here.
\<close>

record node_stats =
  node_n :: nat
  attr_name :: "string option"
  attr_value_counts :: "(string \<times> (val \<times> nat) list) list"
  attr_value_count_totals :: "(string \<times> nat) list"
  attr_class_value_counts :: "(string \<times> (val \<times> (val \<times> nat) list) list) list"
  class_ddist :: ddist
  attr_value_cdist :: "(string \<times> (val \<times> cdist) list) list"
  class_cdist :: cdist

datatype node = Node (stats: node_stats) (branches: "(val \<times> node) list")

text \<open>What \<open>predict\<close> returns: a copy of a \<open>DDist\<close> or of a \<open>CDist\<close>.\<close>

datatype dist = DDistV ddist | CDistV cdist

text \<open>\<open>Node(tree, attr_name)\<close>.\<close>

definition Node_init :: "string option \<Rightarrow> node" where
  "Node_init a =
     Node \<lparr>node_n = 0, attr_name = a, attr_value_counts = [], attr_value_count_totals = [],
           attr_class_value_counts = [], class_ddist = DDist_clear, attr_value_cdist = [],
           class_cdist = CDist_clear\<rparr> []"

text \<open>Python's truth value of \<open>self.attr_name\<close>: \<open>None\<close> and the empty string are false.\<close>

definition truthy :: "string option \<Rightarrow> bool" where
  "truthy a = (case a of None \<Rightarrow> False | Some s \<Rightarrow> s \<noteq> [])"

text \<open>Reads of the nested \<open>defaultdict\<close>s: a missing inner dictionary reads as empty.\<close>

definition dd_get :: "('k \<times> 'v list) list \<Rightarrow> 'k \<Rightarrow> 'v list" where
  "dd_get d k = (case map_of d k of None \<Rightarrow> [] | Some m \<Rightarrow> m)"

definition cd_get :: "(val \<times> cdist) list \<Rightarrow> val \<Rightarrow> cdist" where
  "cd_get d k = (case map_of d k of None \<Rightarrow> CDist_clear | Some c \<Rightarrow> c)"

subsection \<open>Missing values\<close>

text \<open>\<open>Node.get_values\<close>: the set of values seen for the attribute, in some order.\<close>

definition Node_get_values :: "node \<Rightarrow> string \<Rightarrow> val list" where
  "Node_get_values nd a =
     remdups (map fst (dd_get (attr_value_cdist (stats nd)) a)
              @ map fst (dd_get (attr_value_counts (stats nd)) a)
              @ map fst (branches nd))"

text \<open>
  The comparison of the tuples \<open>(distance, value)\<close> that \<open>min\<close> performs: by distance, then
  by value (both numbers where the subtraction has succeeded).
\<close>

definition nearer :: "real \<times> val \<Rightarrow> real \<times> val \<Rightarrow> bool" where
  "nearer c b = (fst c < fst b \<or> (fst c = fst b \<and> num_of (snd c) < num_of (snd b)))"

text \<open>
  The loop \<open>nearest = min(nearest, (abs(_value - attr_value), _value))\<close>. \<open>best\<close> is \<open>None\<close>
  for the initial \<open>(inf, None)\<close>, which every candidate is less than. The subtraction raises
  \<open>TypeError\<close> unless both cells are numbers.
\<close>

fun nearest_loop :: "(real \<times> val) option \<Rightarrow> val list \<Rightarrow> val \<Rightarrow> error + (real \<times> val) option" where
  "nearest_loop best [] q = Inr best"
| "nearest_loop best (v # vs) q =
     (case (num_of v, num_of q) of
        (Some x, Some y) \<Rightarrow>
          nearest_loop
            (case best of
               None \<Rightarrow> Some (\<bar>x - y\<bar>, v)
             | Some b \<Rightarrow> if nearer (\<bar>x - y\<bar>, v) b then Some (\<bar>x - y\<bar>, v) else Some b)
            vs q
      | _ \<Rightarrow> Inl TypeError)"

text \<open>
  \<open>Node._get_attribute_value_for_node\<close>. The result \<open>VNone\<close> stands for Python's \<open>None\<close>
  (an unsplit node, or no known value at all).
\<close>

definition Node_get_attribute_value_for_node :: "tree \<Rightarrow> node \<Rightarrow> row \<Rightarrow> error + val" where
  "Node_get_attribute_value_for_node t nd r =
     (case attr_name (stats nd) of
        None \<Rightarrow> Inr VNone
      | Some attr \<Rightarrow>
          (case map_of r attr of
             None \<Rightarrow> Inl KeyError
           | Some attr_value \<Rightarrow>
               if attr_value \<in> set (Node_get_values nd attr) then Inr attr_value
               else
                 (case map_of (missing_value_policy t) attr of
                    None \<Rightarrow> Inl AssertionError
                  | Some policy \<Rightarrow>
                      if policy = [] then Inl AssertionError
                      else if policy = USE_NEAREST then
                        (case map_of (header_types t) attr of
                           None \<Rightarrow> Inl KeyError
                         | Some ty \<Rightarrow>
                             if ty = DIS \<or> ty = CON then
                               bind_err (nearest_loop None (Node_get_values nd attr) attr_value)
                                 (\<lambda>nearest. Inr (case nearest of None \<Rightarrow> VNone
                                                  | Some b \<Rightarrow> snd b))
                             else Inl AssertionError)
                      else Inl Exception)))"

subsection \<open>Entropy and gain from the cached statistics\<close>

text \<open>
  \<open>Node.get_entropy(attr_name, attr_value)\<close>; the argument \<open>None\<close> is the call without
  arguments. The result \<open>None\<close> is Python's \<open>None\<close>: the variance of an empty \<open>CDist\<close>, or a
  metric of the other family.
\<close>

definition Node_get_entropy :: "tree \<Rightarrow> node \<Rightarrow> (string \<times> val) option \<Rightarrow> error + real option" where
  "Node_get_entropy t nd av =
     (let s = stats nd in
      if is_continuous_class t then
        (let var = (case av of
                      None \<Rightarrow> CDist_variance (class_cdist s)
                    | Some (a, v) \<Rightarrow> CDist_variance (cd_get (dd_get (attr_value_cdist s) a) v))
         in case av of
              None \<Rightarrow> Inr var
            | Some (a, v) \<Rightarrow>
                if metric t = VARIANCE1 then Inr var
                else if metric t = VARIANCE2 then
                  bind_err (fdiv (real (length (dd_get (attr_value_counts s) a)))
                                 (real (get0 (attr_value_count_totals s) a)))
                    (\<lambda>q. case var of None \<Rightarrow> Inl TypeError | Some w \<Rightarrow> Inr (Some (w * q)))
                else Inr None)
      else
        (let tot = (case av of
                      None \<Rightarrow> real (total (class_ddist s))
                    | Some (a, v) \<Rightarrow> real (get0 (dd_get (attr_value_counts s) a) v));
             cs = (case av of
                     None \<Rightarrow> counts (class_ddist s)
                   | Some (a, v) \<Rightarrow> dd_get (dd_get (attr_class_value_counts s) a) v);
             unique_value_count = (case av of
                     None \<Rightarrow> length (counts (class_ddist s))
                   | Some (a, v) \<Rightarrow> length (dd_get (attr_value_counts s) a));
             attr_total = (case av of
                     None \<Rightarrow> tot
                   | Some (a, v) \<Rightarrow> real (get0 (attr_value_count_totals s) a));
             n = max 2 (length cs)
         in if tot = 0 then Inl AssertionError
            else if metric t = ENTROPY1 then
              bind_err (sum_plogp (map (real \<circ> snd) cs) tot (real n)) (\<lambda>e. Inr (Some (- e)))
            else if metric t = ENTROPY2 then
              bind_err (sum_plogp (map (real \<circ> snd) cs) tot (real n)) (\<lambda>e.
              bind_err (fdiv (real unique_value_count) attr_total) (\<lambda>q. Inr (Some (- e + q))))
            else if metric t = ENTROPY3 then
              bind_err (sum_plogp (map (real \<circ> snd) cs) tot (real n)) (\<lambda>e.
              bind_err (fdiv (real unique_value_count) attr_total) (\<lambda>q.
                Inr (Some (- e + 100 * q))))
            else Inr None))"

text \<open>\<open>Node.get_value_prob\<close>; \<open>None\<close> for an attribute without a total.\<close>

definition Node_get_value_prob :: "node \<Rightarrow> string \<Rightarrow> val \<Rightarrow> error + real option" where
  "Node_get_value_prob nd a v =
     (let s = stats nd in
      case map_of (attr_value_count_totals s) a of
        None \<Rightarrow> Inr None
      | Some d \<Rightarrow>
          bind_err (fdiv (real (get0 (dd_get (attr_value_counts s) a) v)) (real d))
            (\<lambda>p. Inr (Some p)))"

text \<open>
  The loop of \<open>Node.get_gain\<close> over the values of the attribute. The product
  \<open>value_prob * e\<close> raises \<open>TypeError\<close> when a factor is \<open>None\<close>.
\<close>

fun gain_loop :: "tree \<Rightarrow> node \<Rightarrow> string \<Rightarrow> val list \<Rightarrow> error + real" where
  "gain_loop t nd a [] = Inr 0"
| "gain_loop t nd a (v # vs) =
     bind_err (Node_get_value_prob nd a v) (\<lambda>value_prob.
     bind_err (Node_get_entropy t nd (Some (a, v))) (\<lambda>e.
       case (value_prob, e) of
         (Some p, Some x) \<Rightarrow> bind_err (gain_loop t nd a vs) (\<lambda>rest. Inr (p * x + rest))
       | _ \<Rightarrow> Inl TypeError))"

text \<open>\<open>Node.get_gain\<close>: \<open>main_entropy - subset_entropy\<close>, a \<open>TypeError\<close> if the former is \<open>None\<close>.\<close>

definition Node_get_gain :: "tree \<Rightarrow> node \<Rightarrow> string \<Rightarrow> error + real" where
  "Node_get_gain t nd a =
     bind_err (gain_loop t nd a (map fst (dd_get (attr_value_counts (stats nd)) a)))
       (\<lambda>subset_entropy.
     bind_err (Node_get_entropy t nd None) (\<lambda>main_entropy.
       case main_entropy of
         None \<Rightarrow> Inl TypeError
       | Some m \<Rightarrow> Inr (m - subset_entropy)))"

text \<open>
  \<open>best = max(best, (gain, attr))\<close>: the tuples compare by gain, then by name; \<open>None\<close> is
  the initial \<open>(-inf, None)\<close>.
\<close>

definition better :: "real \<times> string \<Rightarrow> real \<times> string \<Rightarrow> bool" where
  "better c b = (fst b < fst c \<or> (fst b = fst c \<and> snd b < snd c))"

definition max_best :: "(real \<times> string) option \<Rightarrow> real \<times> string \<Rightarrow> (real \<times> string) option" where
  "max_best best c = (case best of None \<Rightarrow> Some c | Some b \<Rightarrow> if better c b then Some c else Some b)"

fun best_attr_loop :: "tree \<Rightarrow> node \<Rightarrow> (real \<times> string) option \<Rightarrow> string list
     \<Rightarrow> error + (real \<times> string) option" where
  "best_attr_loop t nd best [] = Inr best"
| "best_attr_loop t nd best (a # as) =
     bind_err (Node_get_gain t nd a) (\<lambda>g. best_attr_loop t nd (max_best best (g, a)) as)"

text \<open>\<open>Node.get_best_splitting_attr\<close>, over \<open>self.attributes\<close>.\<close>

definition Node_get_best_splitting_attr :: "tree \<Rightarrow> node \<Rightarrow> error + string option" where
  "Node_get_best_splitting_attr t nd =
     bind_err (best_attr_loop t nd None (map fst (attr_value_counts (stats nd))))
       (\<lambda>best. Inr (map_option snd best))"

subsection \<open>Prediction\<close>

text \<open>\<open>Node.get_value_ddist\<close>.\<close>

definition Node_get_value_ddist :: "tree \<Rightarrow> node \<Rightarrow> string \<Rightarrow> val \<Rightarrow> error + ddist" where
  "Node_get_value_ddist t nd a v =
     (if is_continuous_class t then Inl AssertionError
      else Inr (foldl (\<lambda>d kc. DDist_add d (fst kc) (snd kc)) DDist_clear
                  (dd_get (dd_get (attr_class_value_counts (stats nd)) a) v)))"

definition Node_ready_to_predict :: "node \<Rightarrow> bool" where
  "Node_ready_to_predict nd = (0 < node_n (stats nd))"

text \<open>The second half of \<open>Node.predict\<close>: the decision at the current node.\<close>

definition decide_here :: "tree \<Rightarrow> node \<Rightarrow> val \<Rightarrow> error + dist" where
  "decide_here t nd attr_value =
     (case attr_name (stats nd) of
        Some a \<Rightarrow>
          if a \<noteq> [] then
            (if is_continuous_class t
             then Inr (CDistV (cd_get (dd_get (attr_value_cdist (stats nd)) a) attr_value))
             else bind_err (Node_get_value_ddist t nd a attr_value) (\<lambda>d. Inr (DDistV d)))
          else if is_continuous_class t then Inr (CDistV (class_cdist (stats nd)))
          else Inr (DDistV (class_ddist (stats nd)))
      | None \<Rightarrow>
          if is_continuous_class t then Inr (CDistV (class_cdist (stats nd)))
          else Inr (DDistV (class_ddist (stats nd))))"

text \<open>
  \<open>Node.predict\<close>. The \<open>try\<close> around the child's \<open>predict\<close> catches
  \<open>NodeNotReadyToPredict\<close> only; every other exception propagates.
\<close>

function Node_predict :: "tree \<Rightarrow> node \<Rightarrow> row \<Rightarrow> error + dist" where
  "Node_predict t nd r =
     (if \<not> Node_ready_to_predict nd then Inl NodeNotReadyToPredict
      else
        case Node_get_attribute_value_for_node t nd r of
          Inl e \<Rightarrow> Inl e
        | Inr attr_value \<Rightarrow>
            if truthy (attr_name (stats nd)) then
              (case map_of (branches nd) attr_value of
                 None \<Rightarrow> decide_here t nd attr_value
               | Some child \<Rightarrow>
                   (case Node_predict t child r of
                      Inr d \<Rightarrow> Inr d
                    | Inl e \<Rightarrow>
                        if e = NodeNotReadyToPredict then decide_here t nd attr_value
                        else Inl e))
            else decide_here t nd attr_value)"
  by pat_completeness auto
termination
proof (relation "measure (\<lambda>(t, nd, r). size nd)")
  show "wf (measure (\<lambda>(t, nd, r). size nd))" by simp
next
  fix t :: tree and nd :: node and r :: row and attr_value :: val and child :: node
  assume "map_of (branches nd) attr_value = Some child"
  then have mem: "(attr_value, child) \<in> set (branches nd)" by (rule map_of_SomeD)
  have "size child < size nd"
  proof (cases nd)
    case (Node s bs)
    with mem have "(attr_value, child) \<in> set bs" by simp
    then have "size child < Suc (size_list (size_prod (\<lambda>x. 0) size) bs)"
      by (induction bs) auto
    with Node show ?thesis by simp
  qed
  then show "((t, child, r), (t, nd, r)) \<in> measure (\<lambda>(t, nd, r). size nd)" by simp
qed

subsection \<open>Splitting\<close>

text \<open>
  \<open>Node.ready_to_split\<close>. The early \<open>return False\<close> is taken only when both the statistic
  and the threshold are not \<open>None\<close>.
\<close>

definition Node_ready_to_split :: "tree \<Rightarrow> node \<Rightarrow> error + bool" where
  "Node_ready_to_split t nd =
     (let threshold = leaf_threshold t;
          otherwise = (auto_grow t \<and> \<not> truthy (attr_name (stats nd))
                        \<and> splitting_n t \<le> int (node_n (stats nd)))
      in if is_continuous_class t then
           (case (CDist_variance (class_cdist (stats nd)), threshold) of
              (Some var, Some th) \<Rightarrow> if var \<le> th then Inr False else Inr otherwise
            | _ \<Rightarrow> Inr otherwise)
         else
           bind_err (DDist_best_prob (class_ddist (stats nd))) (\<lambda>best_prob.
             case (best_prob, threshold) of
               (Some p, Some th) \<Rightarrow> if th \<le> p then Inr False else Inr otherwise
             | _ \<Rightarrow> Inr otherwise))"

subsection \<open>Online update\<close>

text \<open>The three kinds of \<open>d[an][av]... += ...\<close> on the nested dictionaries.\<close>

definition incr2 :: "string \<Rightarrow> val \<Rightarrow> (string \<times> (val \<times> nat) list) list
     \<Rightarrow> (string \<times> (val \<times> nat) list) list" where
  "incr2 an av d = AList.update an (incr av 1 (dd_get d an)) d"

definition incr3 :: "string \<Rightarrow> val \<Rightarrow> val \<Rightarrow> nat \<Rightarrow> (string \<times> (val \<times> (val \<times> nat) list) list) list
     \<Rightarrow> (string \<times> (val \<times> (val \<times> nat) list) list) list" where
  "incr3 an av cv c d =
     AList.update an (AList.update av (incr cv c (dd_get (dd_get d an) av)) (dd_get d an)) d"

definition iadd2 :: "string \<Rightarrow> val \<Rightarrow> real \<Rightarrow> (string \<times> (val \<times> cdist) list) list
     \<Rightarrow> (string \<times> (val \<times> cdist) list) list" where
  "iadd2 an av x d =
     AList.update an (AList.update av (CDist_iadd (cd_get (dd_get d an) av) x) (dd_get d an)) d"

text \<open>
  The loop of \<open>Node.update\<close> over the items of the record. \<open>x\<close> is the number of the class
  value, which the update of \<open>class_cdist\<close> has accepted before the loop starts; it is only
  used for a continuous class.
\<close>

fun update_attrs :: "bool \<Rightarrow> string \<Rightarrow> val \<Rightarrow> real \<Rightarrow> row \<Rightarrow> node_stats \<Rightarrow> node_stats" where
  "update_attrs is_con class_attr class_value x [] s = s"
| "update_attrs is_con class_attr class_value x ((an, av) # items) s =
     (if an = class_attr then update_attrs is_con class_attr class_value x items s
      else
        update_attrs is_con class_attr class_value x items
          (if is_con
           then s\<lparr>attr_value_counts := incr2 an av (attr_value_counts s),
                  attr_value_count_totals := incr an 1 (attr_value_count_totals s),
                  attr_value_cdist := iadd2 an av x (attr_value_cdist s)\<rparr>
           else s\<lparr>attr_value_counts := incr2 an av (attr_value_counts s),
                  attr_value_count_totals := incr an 1 (attr_value_count_totals s),
                  attr_class_value_counts :=
                    incr3 an av class_value 1 (attr_class_value_counts s)\<rparr>))"

text \<open>
  The loop \<open>for av in self._attr_value_counts[self.attr_name]\<close> of the split: one fresh
  child per value, \<open>leaf_count\<close> incremented for each.
\<close>

fun make_children :: "val list \<Rightarrow> (val \<times> node) list \<Rightarrow> int \<Rightarrow> (val \<times> node) list \<times> int" where
  "make_children [] bs lc = (bs, lc)"
| "make_children (av # avs) bs lc = make_children avs (AList.update av (Node_init None) bs) (lc + 1)"

text \<open>
  \<open>Node.update\<close> up to and including the decision to split. An exception leaves the node
  as it has been mutated so far, so the result is the exception (if any), the node and
  \<open>leaf_count\<close>.
\<close>

definition update_here :: "tree \<Rightarrow> node \<Rightarrow> row \<Rightarrow> int \<Rightarrow> error option \<times> node \<times> int" where
  "update_here t nd r lc =
     (let s0 = (stats nd)\<lparr>node_n := node_n (stats nd) + 1\<rparr>;
          class_attr = class_attribute_name t;
          is_con = is_continuous_class t
      in case map_of r class_attr of
           None \<Rightarrow> (Some KeyError, Node s0 (branches nd), lc)
         | Some class_value \<Rightarrow>
             if is_con \<and> num_of class_value = None
             then (Some TypeError, Node s0 (branches nd), lc)
             else
               (let x = (case num_of class_value of None \<Rightarrow> 0 | Some y \<Rightarrow> y);
                    s1 = (if is_con
                          then s0\<lparr>class_cdist := CDist_iadd (class_cdist s0) x\<rparr>
                          else s0\<lparr>class_ddist := DDist_add (class_ddist s0) class_value 1\<rparr>);
                    s2 = update_attrs is_con class_attr class_value x r s1;
                    nd2 = Node s2 (branches nd)
                in case Node_ready_to_split t nd2 of
                     Inl e \<Rightarrow> (Some e, nd2, lc)
                   | Inr ready \<Rightarrow>
                       if ready then
                         (case Node_get_best_splitting_attr t nd2 of
                            Inl e \<Rightarrow> (Some e, nd2, lc)
                          | Inr best \<Rightarrow>
                              (case make_children
                                      (map fst (case best of
                                                  None \<Rightarrow> []
                                                | Some a \<Rightarrow> dd_get (attr_value_counts s2) a))
                                      (branches nd) (lc - 1) of
                                 (bs, lc') \<Rightarrow> (None, Node (s2\<lparr>attr_name := best\<rparr>) bs, lc')))
                       else (None, nd2, lc)))"

text \<open>
  \<open>Node.update\<close>: after the node's own statistics, a split node deletes its attribute from
  the record and updates the child under the record's value. \<open>self._branches\<close> is a plain
  \<open>dict\<close>, so a value without a child raises \<open>KeyError\<close> (after the deletion). The result
  is the exception (if any), the node, the record and \<open>leaf_count\<close> as they have been
  mutated.
\<close>

function Node_update :: "tree \<Rightarrow> node \<Rightarrow> row \<Rightarrow> int \<Rightarrow> error option \<times> node \<times> row \<times> int" where
  "Node_update t nd r lc =
     (case update_here t nd r lc of
        (Some e, nd1, lc1) \<Rightarrow> (Some e, nd1, r, lc1)
      | (None, nd1, lc1) \<Rightarrow>
          (case attr_name (stats nd1) of
             None \<Rightarrow> (None, nd1, r, lc1)
           | Some a \<Rightarrow>
               if a = [] then (None, nd1, r, lc1)
               else
                 (case map_of r a of
                    None \<Rightarrow> (Some KeyError, nd1, r, lc1)
                  | Some key \<Rightarrow>
                      (case map_of (branches nd1) key of
                         None \<Rightarrow> (Some KeyError, nd1, AList.delete a r, lc1)
                       | Some child \<Rightarrow>
                           (case Node_update t child (AList.delete a r) lc1 of
                              (res, child', r', lc2) \<Rightarrow>
                                (res, Node (stats nd1) (AList.update key child' (branches nd1)),
                                 r', lc2))))))"
  by pat_completeness auto
termination
proof (relation "measure (\<lambda>(t, nd, r, lc). length r)")
  show "wf (measure (\<lambda>(t, nd, r, lc). length r))" by simp
next
  fix t :: tree and nd child :: node and r :: row and lc lc1 :: int and a :: string
    and key :: val
  assume "map_of r a = Some key"
  then have "(a, key) \<in> set r" by (rule map_of_SomeD)
  then have "length (AList.delete a r) < length r"
    by (induction r) (auto simp: AList.delete_eq less_Suc_eq_le)
  then show "((t, child, AList.delete a r, lc1), (t, nd, r, lc))
               \<in> measure (\<lambda>(t, nd, r, lc). length r)"
    by simp
qed

section \<open>Batch construction\<close>

text \<open>\<open>unique\<close>: the values of a list in the order of their first occurrence.\<close>

definition unique :: "'a list \<Rightarrow> 'a list" where
  "unique lst = foldl (\<lambda>unique_lst item. if item \<in> set unique_lst then unique_lst
                                           else unique_lst @ [item]) [] lst"

text \<open>\<open>[record[attr] for record in data]\<close>: \<open>KeyError\<close> at the first row without the attribute.\<close>

fun column :: "row list \<Rightarrow> string \<Rightarrow> error + val list" where
  "column [] a = Inr []"
| "column (r # rs) a =
     (case map_of r a of
        None \<Rightarrow> Inl KeyError
      | Some v \<Rightarrow> bind_err (column rs a) (\<lambda>vs. Inr (v # vs)))"

definition get_values :: "row list \<Rightarrow> string \<Rightarrow> error + val list" where
  "get_values data a = bind_err (column data a) (\<lambda>vs. Inr (unique vs))"

text \<open>The loop of \<open>choose_attribute\<close>; the class attribute is skipped.\<close>

fun choose_loop :: "(row list \<Rightarrow> string \<Rightarrow> string \<Rightarrow> metric \<Rightarrow> error + real) \<Rightarrow> row list \<Rightarrow> string
     \<Rightarrow> metric \<Rightarrow> (real \<times> string) option \<Rightarrow> string list \<Rightarrow> error + (real \<times> string) option" where
  "choose_loop fitness data class_attr method best [] = Inr best"
| "choose_loop fitness data class_attr method best (a # as) =
     (if a = class_attr then choose_loop fitness data class_attr method best as
      else bind_err (fitness data a class_attr method) (\<lambda>g.
             choose_loop fitness data class_attr method (max_best best (g, a)) as))"

definition choose_attribute :: "row list \<Rightarrow> string list \<Rightarrow> string
     \<Rightarrow> (row list \<Rightarrow> string \<Rightarrow> string \<Rightarrow> metric \<Rightarrow> error + real) \<Rightarrow> metric \<Rightarrow> error + string option" where
  "choose_attribute data attributes class_attr fitness method =
     bind_err (choose_loop fitness data class_attr method None attributes)
       (\<lambda>best. Inr (map_option snd best))"

text \<open>\<open>Data.is_valid\<close>.\<close>

definition Data_is_valid :: "tree \<Rightarrow> string \<Rightarrow> val \<Rightarrow> bool" where
  "Data_is_valid t name v =
     (case map_of (header_types t) name of
        None \<Rightarrow> False
      | Some DIS \<Rightarrow> (case v of VInt i \<Rightarrow> True | _ \<Rightarrow> False)
      | Some CON \<Rightarrow> (case v of VFloat x \<Rightarrow> True | _ \<Rightarrow> False)
      | Some NOM \<Rightarrow> True)"

text \<open>\<open>Node.set_leaf_dist\<close>.\<close>

definition Node_set_leaf_dist :: "tree \<Rightarrow> node \<Rightarrow> val \<Rightarrow> dist \<Rightarrow> error + node" where
  "Node_set_leaf_dist t nd attr_value d =
     (case attr_name (stats nd) of
        None \<Rightarrow> Inl AssertionError
      | Some a \<Rightarrow>
          if a = [] then Inl AssertionError
          else if \<not> Data_is_valid t a attr_value then Inl AssertionError
          else if is_continuous_class t then
            (case d of
               CDistV c \<Rightarrow>
                 Inr (Node ((stats nd)\<lparr>attr_value_cdist :=
                        AList.update a
                          (AList.update attr_value c (dd_get (attr_value_cdist (stats nd)) a))
                          (attr_value_cdist (stats nd))\<rparr>) (branches nd))
             | DDistV dd \<Rightarrow> Inl AssertionError)
          else
            (case d of
               DDistV dd \<Rightarrow>
                 Inr (Node ((stats nd)\<lparr>
                        attr_value_counts := incr2 a attr_value (attr_value_counts (stats nd)),
                        attr_value_count_totals := incr a 1 (attr_value_count_totals (stats nd)),
                        attr_class_value_counts :=
                          foldl (\<lambda>m kc. incr3 a attr_value (fst kc) (snd kc) m)
                            (attr_class_value_counts (stats nd)) (counts dd)\<rparr>) (branches nd))
             | CDistV c \<Rightarrow> Inl AssertionError))"

text \<open>
  The stop distribution of \<open>create_decision_tree\<close> and its flag \<open>stop\<close>. The comparison
  \<open>stop_value.variance <= leaf_threshold\<close> is Python 2's, in which \<open>None\<close> is below every
  number (the order of \<open>option\<close>).
\<close>

definition stop_value_of :: "tree \<Rightarrow> row list \<Rightarrow> string \<Rightarrow> error + dist \<times> bool" where
  "stop_value_of w data class_attr =
     bind_err (column data class_attr) (\<lambda>vs.
       if is_continuous_class w then
         bind_err (CDist_init_val vs) (\<lambda>c.
           Inr (CDistV c,
                (case leaf_threshold w of
                   None \<Rightarrow> False
                 | Some th \<Rightarrow> CDist_variance c \<le> Some th)))
       else Inr (DDistV (DDist_init vs), length (counts (DDist_init vs)) \<le> 1))"

text \<open>What \<open>create_decision_tree\<close> returns: a \<open>Node\<close>, or a distribution for a leaf.\<close>

datatype subtree = SNode node | SLeaf dist

text \<open>The end of the loop body: the subtree becomes a branch, or a leaf distribution.\<close>

definition attach :: "tree \<Rightarrow> node \<Rightarrow> val \<Rightarrow> subtree \<Rightarrow> error + node" where
  "attach w nd v sub =
     (case sub of
        SNode child \<Rightarrow> Inr (Node (stats nd) (AList.update v child (branches nd)))
      | SLeaf d \<Rightarrow> Node_set_leaf_dist w nd v d)"

text \<open>
  \<open>create_decision_tree\<close>, with \<open>wrapper.leaf_count\<close> threaded through, and its loop over the
  values of the chosen attribute as \<open>build_branches\<close>. With no attribute chosen
  (\<open>best = None\<close>) the source fails in \<open>get_values\<close> on \<open>record[None]\<close>. The rows of a value
  are selected by \<open>r[best] == val\<close>, and every row has the attribute once \<open>get_values\<close> has
  returned.
\<close>

function create_decision_tree ::
    "(row list \<Rightarrow> string \<Rightarrow> string \<Rightarrow> metric \<Rightarrow> error + real) \<Rightarrow> tree \<Rightarrow> row list \<Rightarrow> string list
       \<Rightarrow> string \<Rightarrow> int \<Rightarrow> error + subtree \<times> int"
  and build_branches ::
    "(row list \<Rightarrow> string \<Rightarrow> string \<Rightarrow> metric \<Rightarrow> error + real) \<Rightarrow> tree \<Rightarrow> row list \<Rightarrow> string list
       \<Rightarrow> string \<Rightarrow> string \<Rightarrow> val list \<Rightarrow> node \<Rightarrow> int \<Rightarrow> error + node \<times> int"
where
  "create_decision_tree fitness_func w data attributes class_attr lc =
     (case stop_value_of w data class_attr of
        Inl e \<Rightarrow> Inl e
      | Inr (stop_value, stop) \<Rightarrow>
          if data = [] \<or> int (length attributes) - 1 \<le> 0 then Inr (SLeaf stop_value, lc + 1)
          else if stop then Inr (SLeaf stop_value, lc + 1)
          else
            (case choose_attribute data attributes class_attr fitness_func (metric w) of
               Inl e \<Rightarrow> Inl e
             | Inr None \<Rightarrow> Inl KeyError
             | Inr (Some best) \<Rightarrow>
                 (case get_values data best of
                    Inl e \<Rightarrow> Inl e
                  | Inr vals \<Rightarrow>
                      (case build_branches fitness_func w data attributes class_attr best vals
                              (Node ((stats (Node_init (Some best)))\<lparr>node_n := length data\<rparr>) [])
                              lc of
                         Inl e \<Rightarrow> Inl e
                       | Inr (nd, lc') \<Rightarrow> Inr (SNode nd, lc')))))"
| "build_branches fitness_func w data attributes class_attr best [] nd lc = Inr (nd, lc)"
| "build_branches fitness_func w data attributes class_attr best (v # vals) nd lc =
     (case create_decision_tree fitness_func w (filter (\<lambda>r. map_of r best = Some v) data)
             (filter (\<lambda>a. a \<noteq> best) attributes) class_attr lc of
        Inl e \<Rightarrow> Inl e
      | Inr (sub, lc1) \<Rightarrow>
          (case attach w nd v sub of
             Inl e \<Rightarrow> Inl e
           | Inr nd' \<Rightarrow>
               build_branches fitness_func w data attributes class_attr best vals nd' lc1))"
  by pat_completeness auto
termination
proof (relation "inv_image (less_than <*lex*> less_than)
           (\<lambda>x. case x of
                  Inl (f, w, d, attrs, c, lc) \<Rightarrow> (length attrs, 0)
                | Inr (f, w, d, attrs, c, best, vals, nd, lc) \<Rightarrow>
                    (length (filter (\<lambda>a. a \<noteq> best) attrs), Suc (length vals)))",
       goal_cases)
  case 1
  show ?case by (intro wf_inv_image wf_lex_prod wf_less_than)
next
  case (2 fitness_func w data attributes class_attr lc b x y ba x2 bb)
  have loop: "choose_loop f d c m best as = Inr (Some r)
                \<Longrightarrow> snd r \<in> set as \<or> (\<exists>r'. best = Some r' \<and> snd r' = snd r)"
    for f d c m best as and r :: "real \<times> string"
  proof (induction as arbitrary: best)
    case Nil
    then show ?case by simp
  next
    case (Cons a as)
    show ?case
    proof (cases "a = c")
      case True
      with Cons.prems have "choose_loop f d c m best as = Inr (Some r)" by simp
      from Cons.IH [OF this] show ?thesis by auto
    next
      case False
      with Cons.prems obtain g where
        "choose_loop f d c m (max_best best (g, a)) as = Inr (Some r)"
        by (auto simp: bind_err_def split: sum.splits)
      from Cons.IH [OF this] show ?thesis
        by (auto simp: max_best_def split: option.splits if_splits)
    qed
  qed
  from 2 have "choose_attribute data attributes class_attr fitness_func (metric w) = Inr (Some x2)"
    by simp
  then obtain r where "choose_loop fitness_func data class_attr (metric w) None attributes
                         = Inr (Some r)" and "snd r = x2"
    by (auto simp: choose_attribute_def bind_err_def split: sum.splits)
  with loop have "x2 \<in> set attributes" by fastforce
  then have "length (filter (\<lambda>a. a \<noteq> x2) attributes) < length attributes"
    by (rule length_filter_less) simp
  then show ?case by simp
next
  case 3
  show ?case by simp
next
  case 4
  show ?case by simp
qed

section \<open>The tree and the caller's records\<close>

text \<open>
  \<open>Tree.build\<close>: the fitness function follows the type of the class; the fresh tree has
  no leaves yet.
\<close>

definition Tree_build :: "tree \<Rightarrow> row list \<Rightarrow> string list \<Rightarrow> error + subtree \<times> int" where
  "Tree_build w data attribute_names =
     create_decision_tree (if is_continuous_class w then gain_variance else gain)
       w data attribute_names (class_attribute_name w) 0"

text \<open>
  A record is a Python \<open>dict\<close>, an object that the caller and the callee share. The store
  holds the \<open>dict\<close> objects; a reference is a position in it. \<open>record.copy()\<close> allocates a
  new object with the items of the old one.
\<close>

type_synonym ref = nat
type_synonym store = "row list"

definition dict_copy :: "store \<Rightarrow> ref \<Rightarrow> store \<times> ref" where
  "dict_copy h p = (h @ [h ! p], length h)"

text \<open>
  \<open>Node.update\<close> and \<open>Node.predict\<close> on a reference. The former deletes from the object
  it is given, so the object holds afterwards what \<open>Node_update\<close> has left of the record;
  the latter only reads.
\<close>

definition Node_update_ref :: "tree \<Rightarrow> node \<Rightarrow> ref \<Rightarrow> int \<Rightarrow> store
     \<Rightarrow> error option \<times> node \<times> int \<times> store" where
  "Node_update_ref t nd p lc h =
     (case Node_update t nd (h ! p) lc of
        (res, nd', r', lc') \<Rightarrow> (res, nd', lc', h[p := r']))"

definition Node_predict_ref :: "tree \<Rightarrow> node \<Rightarrow> ref \<Rightarrow> store \<Rightarrow> (error + dist) \<times> store" where
  "Node_predict_ref t nd p h = (Node_predict t nd (h ! p), h)"

text \<open>
  \<open>Tree.update(record)\<close>: the assertion, the copy, and the update of the root with the copy.
  The result is the exception (if any), the tree with its \<open>leaf_count\<close>, the root and the
  store.
\<close>

definition Tree_update :: "tree \<Rightarrow> node \<Rightarrow> ref \<Rightarrow> store \<Rightarrow> error option \<times> tree \<times> node \<times> store" where
  "Tree_update t root_node p h =
     (if map_of (h ! p) (class_attribute_name t) = None then (Some AssertionError, t, root_node, h)
      else
        (case dict_copy h p of
           (h1, q) \<Rightarrow>
             (case Node_update_ref t root_node q (leaf_count t) h1 of
                (res, root_node', lc', h2) \<Rightarrow> (res, t\<lparr>leaf_count := lc'\<rparr>, root_node', h2))))"

text \<open>\<open>Tree.predict(record)\<close>: the copy, and the prediction of the root for the copy.\<close>

definition Tree_predict :: "tree \<Rightarrow> node \<Rightarrow> ref \<Rightarrow> store \<Rightarrow> (error + dist) \<times> store" where
  "Tree_predict t root_node p h =
     (case dict_copy h p of (h1, q) \<Rightarrow> Node_predict_ref t root_node q h1)"

section \<open>A small tree grown online\<close>

text \<open>
  A tree for a nominal class \<open>cls\<close> and one discrete attribute \<open>a\<close>, which splits a node
  after two samples unless one class has all of them; and its root after the records
  \<open>{a: 9, cls: x}\<close> and \<open>{a: 3, cls: y}\<close>. The second update splits the root on \<open>a\<close>, with
  an empty child for the value \<open>9\<close> and a child that has seen the second record for \<open>3\<close>.
\<close>

definition demo_tree :: tree where
  "demo_tree = \<lparr>class_attribute_name = ''cls'', is_continuous_class = False,
     header_types = [(''a'', DIS), (''cls'', NOM)], metric = ENTROPY1, splitting_n = 2,
     leaf_threshold = Some 1, auto_grow = True, missing_value_policy = [], leaf_count = 0\<rparr>"

definition demo_node1 :: node where
  "demo_node1 = fst (snd (Node_update demo_tree (Node_init None)
                            [(''a'', VInt 9), (''cls'', VStr ''x'')] 0))"

definition demo_node2 :: node where
  "demo_node2 = fst (snd (Node_update demo_tree demo_node1
                            [(''a'', VInt 3), (''cls'', VStr ''y'')] 0))"


section \<open>Notions used in the proofs\<close>

text \<open>
  The invariant of the Welford update: after the numbers \<open>ys\<close>, a \<open>CDist\<close> holds their count,
  their sum and their sum of squared deviations from the mean (written without the mean).
\<close>

definition welford_inv :: "cdist \<Rightarrow> real list \<Rightarrow> bool" where
  "welford_inv c ys =
     (mean_count c = length ys \<and> mean_sum c = sum_list ys
      \<and> last_variance c
          = sum_list (map (\<lambda>y. y ^ 2) ys) - (sum_list ys) ^ 2 / real (length ys))"

text \<open>
  The equation between the sample count of a node and the size of its class distribution,
  at every node of a tree; that no node of a tree splits on, or counts the values of, the
  class attribute; and the roots that online updates can produce from a fresh root, with
  records that have the class value (a number if the class is continuous).
\<close>

fun count_ok :: "tree \<Rightarrow> node \<Rightarrow> bool" where
  "count_ok t (Node s bs) =
     (node_n s = (if is_continuous_class t then mean_count (class_cdist s)
                  else total (class_ddist s))
      \<and> (\<forall>vc\<in>set bs. count_ok t (snd vc)))"

fun class_free :: "string \<Rightarrow> node \<Rightarrow> bool" where
  "class_free ca (Node s bs) =
     (attr_name s \<noteq> Some ca \<and> ca \<notin> fst ` set (attr_value_counts s)
      \<and> (\<forall>vc\<in>set bs. class_free ca (snd vc)))"

inductive grown :: "tree \<Rightarrow> node \<Rightarrow> bool" for t :: tree where
  fresh: "grown t (Node_init None)"
| update: "grown t nd \<Longrightarrow> map_of r (class_attribute_name t) = Some cv
           \<Longrightarrow> (is_continuous_class t \<longrightarrow> num_of cv \<noteq> None)
           \<Longrightarrow> grown t (fst (snd (Node_update t nd r lc)))"

section \<open>The example tree, evaluated\<close>

lemma log_2_half: "log 2 (1 / 2) = - 1"
  by (simp add: log_divide)

lemma demo_node1_eq:
  "demo_node1 = Node \<lparr>node_n = 1, attr_name = None,
       attr_value_counts = [(''a'', [(VInt 9, 1)])],
       attr_value_count_totals = [(''a'', 1)],
       attr_class_value_counts = [(''a'', [(VInt 9, [(VStr ''x'', 1)])])],
       class_ddist = \<lparr>counts = [(VStr ''x'', 1)], total = 1\<rparr>,
       attr_value_cdist = [], class_cdist = CDist_clear\<rparr> []"
  by (simp add: demo_node1_def demo_tree_def update_here_def Node_init_def DDist_add_def
        DDist_clear_def incr_def get0_def incr2_def incr3_def dd_get_def
        Node_ready_to_split_def DDist_best_prob_def DDist_probs_def bind_err_def fdiv_def
        truthy_def Let_def)

lemma demo_node2_eq:
  "demo_node2 = Node \<lparr>node_n = 2, attr_name = Some ''a'',
       attr_value_counts = [(''a'', [(VInt 9, 1), (VInt 3, 1)])],
       attr_value_count_totals = [(''a'', 2)],
       attr_class_value_counts =
         [(''a'', [(VInt 9, [(VStr ''x'', 1)]), (VInt 3, [(VStr ''y'', 1)])])],
       class_ddist = \<lparr>counts = [(VStr ''x'', 1), (VStr ''y'', 1)], total = 2\<rparr>,
       attr_value_cdist = [], class_cdist = CDist_clear\<rparr>
     [(VInt 9, Node_init None),
      (VInt 3, Node \<lparr>node_n = 1, attr_name = None, attr_value_counts = [],
                 attr_value_count_totals = [], attr_class_value_counts = [],
                 class_ddist = \<lparr>counts = [(VStr ''y'', 1)], total = 1\<rparr>,
                 attr_value_cdist = [], class_cdist = CDist_clear\<rparr> [])]"
  unfolding demo_node2_def demo_node1_eq
  by (simp add: demo_tree_def update_here_def Node_init_def DDist_add_def
        DDist_clear_def incr_def get0_def incr2_def incr3_def dd_get_def
        Node_ready_to_split_def DDist_best_prob_def DDist_probs_def bind_err_def fdiv_def
        truthy_def Let_def Node_get_best_splitting_attr_def Node_get_gain_def
        Node_get_entropy_def Node_get_value_prob_def max_best_def math_log_def log_2_half)


section \<open>Facts about the distributions\<close>

lemma probs_of_eq:
  "0 < t \<Longrightarrow> probs_of kcs t = Inr (map (\<lambda>kc. (fst kc, real (snd kc) / real t)) kcs)"
  by (induction kcs) (auto simp: bind_err_def fdiv_def)

lemma max_prob_eq: "max_prob ps = (if ps = [] then None else Some (Max (snd ` set ps)))"
proof (induction ps)
  case Nil
  show ?case by simp
next
  case (Cons kp ps)
  obtain k p where kp: "kp = (k, p)" by (cases kp)
  show ?case
  proof (cases "ps = []")
    case True
    with kp show ?thesis by simp
  next
    case False
    then have "Max (insert p (snd ` set ps)) = max p (Max (snd ` set ps))"
      by (intro Max_insert) auto
    with Cons False kp show ?thesis by simp
  qed
qed

lemma DDist_best_prob_eq:
  assumes "0 < total d"
  shows "DDist_best_prob d
           = Inr (if counts d = [] then None
                  else Some (Max ((\<lambda>kc. real (snd kc) / real (total d)) ` set (counts d))))"
  using assms
  by (simp add: DDist_best_prob_def DDist_probs_def bind_err_def probs_of_eq max_prob_eq
        image_image)

section \<open>Facts about the update of a node\<close>

lemma update_attrs_keeps:
  "node_n (update_attrs ic ca cv x items s) = node_n s
   \<and> attr_name (update_attrs ic ca cv x items s) = attr_name s
   \<and> class_ddist (update_attrs ic ca cv x items s) = class_ddist s
   \<and> class_cdist (update_attrs ic ca cv x items s) = class_cdist s"
  by (induction ic ca cv x items s rule: update_attrs.induct) simp_all

section \<open>DDist element probability\<close>

text \<open>
  Claim C10. The probability of an element is only defined for a non-empty distribution:
  with \<open>total > 0\<close> it is \<open>counts[k] / total\<close> for a present element and \<open>0\<close> for an absent
  one, and no error is raised; with \<open>total = 0\<close> the unguarded division raises
  \<open>ZeroDivisionError\<close>.
\<close>

theorem DDist_getitem_defined_iff_nonempty:
  "(0 < total d \<longrightarrow>
      (\<forall>c. map_of (counts d) k = Some c \<longrightarrow> DDist_getitem d k = Inr (real c / real (total d)))
      \<and> (map_of (counts d) k = None \<longrightarrow> DDist_getitem d k = Inr 0))
   \<and> (total d = 0 \<longrightarrow> DDist_getitem d k = Inl ZeroDivisionError)"
  by (auto simp: DDist_getitem_def fdiv_def)

lemma DDist_init_abbc:
  "DDist_init [VStr ''a'', VStr ''a'', VStr ''b'', VStr ''c'']
     = \<lparr>counts = [(VStr ''a'', 2), (VStr ''b'', 1), (VStr ''c'', 1)], total = 4\<rparr>"
  by (simp add: DDist_init_def DDist_add_def DDist_clear_def incr_def get0_def)

theorem DDist_getitem_defined_iff_nonempty_witness:
  "0 < total (DDist_init [VStr ''a'', VStr ''a'', VStr ''b'', VStr ''c''])
   \<and> DDist_getitem (DDist_init [VStr ''a'', VStr ''a'', VStr ''b'', VStr ''c'']) (VStr ''a'')
       = Inr (1 / 2)
   \<and> DDist_getitem (DDist_init [VStr ''a'', VStr ''a'', VStr ''b'', VStr ''c'']) (VStr ''z'')
       = Inr 0
   \<and> total DDist_clear = 0
   \<and> DDist_getitem DDist_clear (VStr ''a'') = Inl ZeroDivisionError"
  using DDist_getitem_defined_iff_nonempty
          [of "DDist_init [VStr ''a'', VStr ''a'', VStr ''b'', VStr ''c'']" "VStr ''a''"]
        DDist_getitem_defined_iff_nonempty
          [of "DDist_init [VStr ''a'', VStr ''a'', VStr ''b'', VStr ''c'']" "VStr ''z''"]
        DDist_getitem_defined_iff_nonempty [of DDist_clear "VStr ''a''"]
  by (simp add: DDist_init_abbc DDist_clear_def)

section \<open>Welford update of CDist\<close>

lemma welford_inv_clear: "welford_inv CDist_clear []"
  by (simp add: welford_inv_def CDist_clear_def)

lemma welford_step:
  fixes n S Q x :: real
  assumes "n \<noteq> 0" "n + 1 \<noteq> 0"
  shows "Q - S ^ 2 / n + (x - S / n) * (x - (S + x) / (n + 1))
           = Q + x ^ 2 - (S + x) ^ 2 / (n + 1)"
proof -
  have a: "x - S / n = (n * x - S) / n" using assms by (simp add: field_simps)
  have b: "x - (S + x) / (n + 1) = (n * x - S) / (n + 1)" using assms by (simp add: field_simps)
  have c: "(n * x - S) / n * ((n * x - S) / (n + 1)) = x ^ 2 - (S + x) ^ 2 / (n + 1) + S ^ 2 / n"
  proof -
    have e1: "(S + x) ^ 2 / (n + 1) * (n * (n + 1)) = (S + x) ^ 2 * n"
      using assms by simp
    have e2: "S ^ 2 / n * (n * (n + 1)) = S ^ 2 * (n + 1)"
      using assms by simp
    have "(x ^ 2 - (S + x) ^ 2 / (n + 1) + S ^ 2 / n) * (n * (n + 1))
            = x ^ 2 * (n * (n + 1)) - (S + x) ^ 2 / (n + 1) * (n * (n + 1))
                + S ^ 2 / n * (n * (n + 1))"
      by (simp only: distrib_right left_diff_distrib)
    also have "\<dots> = x ^ 2 * (n * (n + 1)) - (S + x) ^ 2 * n + S ^ 2 * (n + 1)"
      unfolding e1 e2 by (rule refl)
    also have "\<dots> = (n * x - S) * (n * x - S)"
      by (simp add: algebra_simps power2_eq_square)
    finally have "x ^ 2 - (S + x) ^ 2 / (n + 1) + S ^ 2 / n
                   = (n * x - S) * (n * x - S) / (n * (n + 1))"
      using assms by (simp add: nonzero_eq_divide_eq)
    then show ?thesis by simp
  qed
  show ?thesis unfolding a b c by simp
qed

lemma welford_inv_iadd:
  assumes "welford_inv c ys"
  shows "welford_inv (CDist_iadd c x) (ys @ [x])"
proof (cases "length ys = 0")
  case True
  with assms show ?thesis
    by (simp add: welford_inv_def CDist_iadd_def CDist_mean_def)
next
  case False
  then have n: "real (length ys) \<noteq> 0" "real (length ys) + 1 \<noteq> 0" by simp_all
  from assms False show ?thesis
    using welford_step [OF n, of "sum_list (map (\<lambda>y. y ^ 2) ys)" "sum_list ys" x]
    by (simp add: welford_inv_def CDist_iadd_def CDist_mean_def Let_def add.commute)
qed

lemma welford_inv_foldl:
  "welford_inv c ys \<Longrightarrow> welford_inv (foldl CDist_iadd c xs) (ys @ xs)"
proof (induction xs arbitrary: c ys)
  case Nil
  then show ?case by simp
next
  case (Cons x xs)
  from Cons.IH [OF welford_inv_iadd [OF Cons.prems, of x]] show ?case by simp
qed

lemma sum_sq_dev:
  "sum_list (map (\<lambda>x. (x - m) ^ 2) xs)
     = sum_list (map (\<lambda>x. x ^ 2) xs) - 2 * m * sum_list xs + real (length xs) * m ^ 2"
  by (induction xs) (simp_all add: algebra_simps power2_eq_square)

lemma sum_sq_dev_mean:
  assumes "xs \<noteq> []"
  shows "sum_list (map (\<lambda>x. (x - sum_list xs / real (length xs)) ^ 2) xs)
     = sum_list (map (\<lambda>x. x ^ 2) xs) - (sum_list xs) ^ 2 / real (length xs)"
proof -
  from assms have n: "real (length xs) \<noteq> 0" by simp
  show ?thesis
    unfolding sum_sq_dev using n by (simp add: field_simps power2_eq_square)
qed

text \<open>
  Claim C8. Folding a non-empty sequence of reals into a fresh \<open>CDist\<close> with \<open>+=\<close> gives as
  \<open>mean\<close> the arithmetic mean of the sequence and as \<open>variance\<close> its population variance
  (the squared deviations from the mean summed and divided by \<open>n\<close>, not \<open>n - 1\<close>): the
  values that \<open>mean(seq)\<close> and \<open>variance(seq)\<close> of the source return. Exact over the reals.
\<close>

theorem CDist_welford_mean_variance:
  assumes "xs \<noteq> []"
  shows "CDist_mean (CDist_init xs) = Some (sum_list xs / real (length xs))
       \<and> CDist_variance (CDist_init xs)
           = Some (sum_list (map (\<lambda>x. (x - sum_list xs / real (length xs)) ^ 2) xs)
                     / real (length xs))
       \<and> mean xs = Inr (sum_list xs / real (length xs))
       \<and> variance xs
           = Inr (sum_list (map (\<lambda>x. (x - sum_list xs / real (length xs)) ^ 2) xs)
                     / real (length xs))"
proof -
  from welford_inv_foldl [OF welford_inv_clear, of xs]
  have inv: "welford_inv (CDist_init xs) xs" by (simp add: CDist_init_def)
  from assms have n: "length xs \<noteq> 0" by simp
  have m: "CDist_mean (CDist_init xs) = Some (sum_list xs / real (length xs))"
    using inv n by (simp add: welford_inv_def CDist_mean_def)
  have v: "CDist_variance (CDist_init xs)
           = Some (sum_list (map (\<lambda>x. (x - sum_list xs / real (length xs)) ^ 2) xs)
                     / real (length xs))"
    using inv n by (simp add: welford_inv_def CDist_variance_def sum_sq_dev_mean [OF assms])
  have m': "mean xs = Inr (sum_list xs / real (length xs))"
    using n by (simp add: mean_def fdiv_def)
  have v': "variance xs
           = Inr (sum_list (map (\<lambda>x. (x - sum_list xs / real (length xs)) ^ 2) xs)
                     / real (length xs))"
    using n by (simp add: variance_def m' bind_err_def fdiv_def)
  from m v m' v' show ?thesis by blast
qed

lemma CDist_init_1_to_9:
  "CDist_init [1, 2, 3, 4, 5, 6, 7, 8, 9] = \<lparr>mean_sum = 45, mean_count = 9, last_variance = 60\<rparr>"
  by (simp add: CDist_init_def CDist_iadd_def CDist_mean_def CDist_clear_def Let_def)

theorem CDist_welford_mean_variance_witness:
  "[1, 2, 3, 4, 5, 6, 7, 8, 9] \<noteq> ([] :: real list)
   \<and> CDist_mean (CDist_init [1, 2, 3, 4, 5, 6, 7, 8, 9]) = Some 5
   \<and> CDist_variance (CDist_init [1, 2, 3, 4, 5, 6, 7, 8, 9]) = Some (20 / 3)
   \<and> mean [1, 2, 3, 4, 5, 6, 7, 8, 9] = Inr 5
   \<and> variance [1, 2, 3, 4, 5, 6, 7, 8, 9] = Inr (20 / 3)"
  using CDist_welford_mean_variance [of "[1, 2, 3, 4, 5, 6, 7, 8, 9]"]
  by (simp add: power2_eq_square)

section \<open>The value-count penalty of entropy2 and entropy3\<close>

text \<open>
  At a node, \<open>Node.get_entropy\<close> adds the penalty \<open>U / A\<close> (times 100 for \<open>entropy3\<close>) to
  \<open>entropy1\<close>, with \<open>U\<close> the number of distinct values and \<open>A\<close> the attribute total.
\<close>

lemma Node_get_entropy_penalty:
  assumes "\<not> is_continuous_class t"
    and "Node_get_entropy (t\<lparr>metric := ENTROPY1\<rparr>) nd av = Inr (Some e)"
    and "A = (case av of None \<Rightarrow> real (total (class_ddist (stats nd)))
              | Some (a, v) \<Rightarrow> real (get0 (attr_value_count_totals (stats nd)) a))"
    and "U = (case av of None \<Rightarrow> length (counts (class_ddist (stats nd)))
              | Some (a, v) \<Rightarrow> length (dd_get (attr_value_counts (stats nd)) a))"
    and "A \<noteq> 0"
  shows "Node_get_entropy (t\<lparr>metric := ENTROPY2\<rparr>) nd av = Inr (Some (e + real U / A))
       \<and> Node_get_entropy (t\<lparr>metric := ENTROPY3\<rparr>) nd av = Inr (Some (e + 100 * (real U / A)))"
  using assms
  by (auto simp: Node_get_entropy_def bind_err_def fdiv_def Let_def
           split: if_splits sum.splits option.splits)

text \<open>
  Claim C1. On the batch path the function \<open>entropy\<close> does not add \<open>U / len_data\<close> to
  \<open>entropy1\<close>: whenever \<open>entropy1\<close> of the rows is \<open>e\<close>, \<open>entropy2\<close> is \<open>e\<close> minus
  \<open>(U - 1) / T\<close> and \<open>entropy3\<close> is \<open>e\<close> minus \<open>100 (U - 1) / T\<close>, where \<open>U\<close> is the number of
  distinct class values and \<open>T\<close> the sum of their counts.
\<close>

theorem entropy_batch_penalty:
  assumes "entropy data class_attr ENTROPY1 = Inr e"
  shows "entropy data class_attr ENTROPY2
           = Inr (e - (real (length (value_counts (map (\<lambda>r. row_get r class_attr) data))) - 1)
                        / sum_list (map snd (value_counts (map (\<lambda>r. row_get r class_attr) data))))
       \<and> entropy data class_attr ENTROPY3
           = Inr (e - 100 * ((real (length (value_counts (map (\<lambda>r. row_get r class_attr) data))) - 1)
                        / sum_list (map snd (value_counts (map (\<lambda>r. row_get r class_attr) data)))))"
  using assms
  by (auto simp: entropy_def entropy_counts_def bind_err_def fdiv_def Let_def
           split: if_splits sum.splits)

lemma value_counts_ab:
  "value_counts (map (\<lambda>r. row_get r ''cls'') [[(''cls'', VStr ''a'')], [(''cls'', VStr ''b'')]])
     = [(VStr ''a'', 1), (VStr ''b'', 1)]"
  by (simp add: value_counts_def row_get_def incr_def get0_def)

text \<open>
  For the two rows \<open>{cls: a}\<close> and \<open>{cls: b}\<close>, where \<open>U = 2\<close> and \<open>len_data = 2\<close>, \<open>entropy1\<close>
  is \<open>1\<close>, so that adding the penalty would give \<open>2\<close> and \<open>101\<close>; \<open>entropy\<close> returns \<open>1/2\<close>
  and \<open>-49\<close>.
\<close>

theorem entropy_batch_penalty_witness:
  "entropy [[(''cls'', VStr ''a'')], [(''cls'', VStr ''b'')]] ''cls'' ENTROPY1 = Inr 1
   \<and> entropy [[(''cls'', VStr ''a'')], [(''cls'', VStr ''b'')]] ''cls'' ENTROPY2 = Inr (1 / 2)
   \<and> entropy [[(''cls'', VStr ''a'')], [(''cls'', VStr ''b'')]] ''cls'' ENTROPY3 = Inr (- 49)"
proof -
  have e1: "entropy [[(''cls'', VStr ''a'')], [(''cls'', VStr ''b'')]] ''cls'' ENTROPY1 = Inr 1"
    unfolding entropy_def value_counts_ab
    by (simp add: entropy_counts_def bind_err_def fdiv_def math_log_def log_2_half)
  from entropy_batch_penalty [OF e1] e1 show ?thesis
    by (simp add: value_counts_def row_get_def incr_def get0_def)
qed

section \<open>Prediction on a node that is not ready\<close>

lemma nearest_loop_error: "nearest_loop best vs q = Inl e \<Longrightarrow> e = TypeError"
  by (induction best vs q rule: nearest_loop.induct) (auto split: option.splits)

lemma get_attr_not_NNRP:
  "Node_get_attribute_value_for_node t nd r \<noteq> Inl NodeNotReadyToPredict"
proof
  assume a: "Node_get_attribute_value_for_node t nd r = Inl NodeNotReadyToPredict"
  then show False
    unfolding Node_get_attribute_value_for_node_def bind_err_def
    by (auto split: option.splits if_splits sum.splits dest: nearest_loop_error)
qed

lemma decide_here_not_NNRP: "decide_here t nd v \<noteq> Inl NodeNotReadyToPredict"
  by (auto simp: decide_here_def Node_get_value_ddist_def bind_err_def
           split: option.splits if_splits sum.splits)

lemma decide_here_split:
  assumes "attr_name (stats nd) = Some a" and "a \<noteq> []"
  shows "decide_here t nd v
           = Inr (if is_continuous_class t
                  then CDistV (cd_get (dd_get (attr_value_cdist (stats nd)) a) v)
                  else DDistV (foldl (\<lambda>d kc. DDist_add d (fst kc) (snd kc)) DDist_clear
                                 (dd_get (dd_get (attr_class_value_counts (stats nd)) a) v)))"
  using assms by (simp add: decide_here_def Node_get_value_ddist_def bind_err_def)

text \<open>
  Claim C5. \<open>Node.predict\<close> raises \<open>NodeNotReadyToPredict\<close> exactly when the sample count
  \<open>n\<close> of the node is \<open>0\<close>. And when a node with samples, split on the attribute \<open>a\<close>,
  descends to the child of the record's value \<open>v\<close> and the child's \<open>predict\<close> raises
  \<open>NodeNotReadyToPredict\<close>, the node does not raise: it returns a distribution read from its
  own statistics, namely the \<open>CDist\<close> it keeps for the value \<open>v\<close> of \<open>a\<close> when the class is
  continuous, and otherwise the \<open>DDist\<close> of the class counts it keeps for the value \<open>v\<close> of
  \<open>a\<close>.
\<close>

theorem Node_predict_not_ready_iff:
  "(Node_predict t nd r = Inl NodeNotReadyToPredict \<longleftrightarrow> node_n (stats nd) = 0)
   \<and> (0 < node_n (stats nd) \<longrightarrow> attr_name (stats nd) = Some a \<longrightarrow> a \<noteq> [] \<longrightarrow>
        Node_get_attribute_value_for_node t nd r = Inr v \<longrightarrow>
        map_of (branches nd) v = Some child \<longrightarrow>
        Node_predict t child r = Inl NodeNotReadyToPredict \<longrightarrow>
        Node_predict t nd r
          = Inr (if is_continuous_class t
                 then CDistV (cd_get (dd_get (attr_value_cdist (stats nd)) a) v)
                 else DDistV (foldl (\<lambda>d kc. DDist_add d (fst kc) (snd kc)) DDist_clear
                                (dd_get (dd_get (attr_class_value_counts (stats nd)) a) v))))"
proof (intro conjI impI)
  show "Node_predict t nd r = Inl NodeNotReadyToPredict \<longleftrightarrow> node_n (stats nd) = 0"
  proof
    assume "node_n (stats nd) = 0"
    then show "Node_predict t nd r = Inl NodeNotReadyToPredict"
      by (simp add: Node_ready_to_predict_def)
  next
    assume a: "Node_predict t nd r = Inl NodeNotReadyToPredict"
    show "node_n (stats nd) = 0"
    proof (rule ccontr)
      assume "node_n (stats nd) \<noteq> 0"
      then have rdy: "Node_ready_to_predict nd" by (simp add: Node_ready_to_predict_def)
      obtain w where w: "Node_get_attribute_value_for_node t nd r = Inr w"
      proof (cases "Node_get_attribute_value_for_node t nd r")
        case (Inl e)
        with a rdy have "e = NodeNotReadyToPredict" by simp
        with Inl get_attr_not_NNRP [of t nd r] show ?thesis by simp
      next
        case (Inr w)
        then show ?thesis by (rule that)
      qed
      have "Node_predict t nd r = decide_here t nd w
            \<or> (\<exists>d. Node_predict t nd r = Inr d)
            \<or> (\<exists>e. Node_predict t nd r = Inl e \<and> e \<noteq> NodeNotReadyToPredict)"
        using rdy w by (simp split: option.splits sum.splits)
      with a decide_here_not_NNRP [of t nd w] show False by auto
    qed
  qed
next
  assume n: "0 < node_n (stats nd)" and a: "attr_name (stats nd) = Some a" "a \<noteq> []"
    and v: "Node_get_attribute_value_for_node t nd r = Inr v"
    and c: "map_of (branches nd) v = Some child"
    and nr: "Node_predict t child r = Inl NodeNotReadyToPredict"
  from a have tr: "truthy (attr_name (stats nd))" by (simp add: truthy_def)
  from n tr v c nr have "Node_predict t nd r = decide_here t nd v"
    by (simp add: Node_ready_to_predict_def)
  with decide_here_split [OF a]
  show "Node_predict t nd r
          = Inr (if is_continuous_class t
                 then CDistV (cd_get (dd_get (attr_value_cdist (stats nd)) a) v)
                 else DDistV (foldl (\<lambda>d kc. DDist_add d (fst kc) (snd kc)) DDist_clear
                                (dd_get (dd_get (attr_class_value_counts (stats nd)) a) v)))"
    by simp
qed

text \<open>
  The root of the example tree has two samples and an empty child for the value \<open>9\<close>: the
  prediction for a record with that value is the root's own distribution of the classes
  seen with the value.
\<close>

theorem Node_predict_not_ready_iff_witness:
  "Node_predict demo_tree (Node_init None) [(''a'', VInt 9)] = Inl NodeNotReadyToPredict
   \<and> node_n (stats (Node_init None)) = 0
   \<and> 0 < node_n (stats demo_node2)
   \<and> attr_name (stats demo_node2) = Some ''a''
   \<and> Node_get_attribute_value_for_node demo_tree demo_node2 [(''a'', VInt 9)] = Inr (VInt 9)
   \<and> map_of (branches demo_node2) (VInt 9) = Some (Node_init None)
   \<and> Node_predict demo_tree demo_node2 [(''a'', VInt 9)]
       = Inr (DDistV \<lparr>counts = [(VStr ''x'', 1)], total = 1\<rparr>)"
  using Node_predict_not_ready_iff [of demo_tree "Node_init None" "[(''a'', VInt 9)]"]
        Node_predict_not_ready_iff
          [of demo_tree demo_node2 "[(''a'', VInt 9)]" "''a''" "VInt 9" "Node_init None"]
  unfolding demo_node2_eq
  by (simp add: Node_init_def demo_tree_def truthy_def
        Node_get_attribute_value_for_node_def Node_get_values_def dd_get_def
        decide_here_def Node_get_value_ddist_def bind_err_def DDist_add_def DDist_clear_def
        incr_def get0_def Node_ready_to_predict_def)


section \<open>When a node is ready to split\<close>






section \<open>The missing-value policy\<close>

text \<open>
  The tuples \<open>(distance, value)\<close> are compared by distance and then by value, which is a
  total preorder; the loop of \<open>min\<close> keeps a least tuple of those it has seen.
\<close>

lemma nearer_trans1: "nearer c b \<Longrightarrow> \<not> nearer c m \<Longrightarrow> \<not> nearer b m"
  by (auto simp: nearer_def)

lemma nearer_trans2: "\<not> nearer c b \<Longrightarrow> \<not> nearer b m \<Longrightarrow> \<not> nearer c m"
  by (auto simp: nearer_def)

lemma nearer_irrefl: "\<not> nearer c c"
  by (simp add: nearer_def)

lemma nearest_loop_min:
  assumes "\<forall>v\<in>set vs. num_of v \<noteq> None" and "num_of q = Some y"
  shows "\<exists>m. nearest_loop best vs q = Inr m
          \<and> (m = None \<longleftrightarrow> best = None \<and> vs = [])
          \<and> (\<forall>mb. m = Some mb \<longrightarrow>
                (best = Some mb \<or> (\<exists>v\<in>set vs. \<exists>x. num_of v = Some x \<and> mb = (\<bar>x - y\<bar>, v)))
                \<and> (\<forall>b. best = Some b \<longrightarrow> \<not> nearer b mb)
                \<and> (\<forall>v\<in>set vs. \<forall>x. num_of v = Some x \<longrightarrow> \<not> nearer (\<bar>x - y\<bar>, v) mb))"
  using assms(1)
proof (induction vs arbitrary: best)
  case Nil
  show ?case by (simp add: nearer_irrefl)
next
  case (Cons v vs)
  from Cons.prems obtain x where x: "num_of v = Some x" by auto
  define c where "c = (\<bar>x - y\<bar>, v)"
  define best' where "best' = (case best of None \<Rightarrow> Some c
                                | Some b \<Rightarrow> if nearer c b then Some c else Some b)"
  have step: "nearest_loop best (v # vs) q = nearest_loop best' vs q"
    unfolding best'_def c_def using x assms(2) by simp
  from Cons.prems have "\<forall>v\<in>set vs. num_of v \<noteq> None" by simp
  from Cons.IH [OF this, of best'] obtain m where
    m: "nearest_loop best' vs q = Inr m"
    and mn: "m = None \<longleftrightarrow> best' = None \<and> vs = []"
    and mb: "\<And>mb. m = Some mb \<Longrightarrow>
               (best' = Some mb \<or> (\<exists>v\<in>set vs. \<exists>x. num_of v = Some x \<and> mb = (\<bar>x - y\<bar>, v)))
               \<and> (\<forall>b. best' = Some b \<longrightarrow> \<not> nearer b mb)
               \<and> (\<forall>v\<in>set vs. \<forall>x. num_of v = Some x \<longrightarrow> \<not> nearer (\<bar>x - y\<bar>, v) mb)"
    by blast
  have b'ne: "best' \<noteq> None" by (simp add: best'_def split: option.splits)
  with mn obtain k where k: "m = Some k" by auto
  note K = mb [OF k]
  obtain b' where b': "best' = Some b'" using b'ne by auto
  with K have nb': "\<not> nearer b' k" by simp
  have b'cases: "b' = c \<or> best = Some b'"
    using b' by (auto simp: best'_def split: option.splits if_splits)
  have 1: "best = Some k \<or> (\<exists>u\<in>set (v # vs). \<exists>z. num_of u = Some z \<and> k = (\<bar>z - y\<bar>, u))"
  proof -
    from K have "best' = Some k \<or> (\<exists>u\<in>set vs. \<exists>z. num_of u = Some z \<and> k = (\<bar>z - y\<bar>, u))"
      by simp
    then show ?thesis
    proof
      assume "best' = Some k"
      with b' b'cases have "k = c \<or> best = Some k" by auto
      then show ?thesis using x by (auto simp: c_def)
    next
      assume "\<exists>u\<in>set vs. \<exists>z. num_of u = Some z \<and> k = (\<bar>z - y\<bar>, u)"
      then show ?thesis by auto
    qed
  qed
  have nc: "\<not> nearer c k"
  proof (cases "b' = c")
    case True
    with nb' show ?thesis by simp
  next
    case False
    with b' have "\<not> nearer c b'"
      by (auto simp: best'_def split: option.splits if_splits)
    from nearer_trans2 [OF this nb'] show ?thesis .
  qed
  have 2: "\<not> nearer b k" if "best = Some b" for b
  proof (cases "nearer c b")
    case True
    from nearer_trans1 [OF True nc] show ?thesis .
  next
    case False
    with that b' have "b' = b" by (simp add: best'_def)
    with nb' show ?thesis by simp
  qed
  have 3: "\<forall>u\<in>set (v # vs). \<forall>z. num_of u = Some z \<longrightarrow> \<not> nearer (\<bar>z - y\<bar>, u) k"
    using K nc x by (auto simp: c_def)
  from step m k 1 2 3 show ?case by auto
qed

lemma USE_NEAREST_nonempty: "USE_NEAREST \<noteq> []"
  by (simp add: USE_NEAREST_def)

text \<open>
  Claim C7. At a node split on \<open>a\<close>, for a record whose value \<open>q\<close> of \<open>a\<close> is not among the
  values known at the node: without a policy for \<open>a\<close> the lookup fails with an
  \<open>AssertionError\<close>; with the use-nearest policy it fails in the same way for a nominal
  attribute; and for a discrete or continuous attribute, when the query and the known values
  are numbers and at least one value is known, it returns a known value \<open>v\<close> that
  minimises \<open>|v - q|\<close>, and among the known values at that least distance the smallest one,
  whatever the order in which the values are encountered.
\<close>

theorem use_nearest_least_value:
  assumes "attr_name (stats nd) = Some a" and "map_of r a = Some q"
    and "q \<notin> set (Node_get_values nd a)"
  shows "(map_of (missing_value_policy t) a = None \<longrightarrow>
            Node_get_attribute_value_for_node t nd r = Inl AssertionError)
       \<and> (map_of (missing_value_policy t) a = Some USE_NEAREST \<longrightarrow>
            map_of (header_types t) a = Some NOM \<longrightarrow>
            Node_get_attribute_value_for_node t nd r = Inl AssertionError)
       \<and> (map_of (missing_value_policy t) a = Some USE_NEAREST \<longrightarrow>
            map_of (header_types t) a \<in> {Some DIS, Some CON} \<longrightarrow>
            num_of q = Some y \<longrightarrow>
            Node_get_values nd a \<noteq> [] \<longrightarrow>
            (\<forall>u\<in>set (Node_get_values nd a). num_of u \<noteq> None) \<longrightarrow>
            (\<exists>v x. Node_get_attribute_value_for_node t nd r = Inr v
                 \<and> v \<in> set (Node_get_values nd a) \<and> num_of v = Some x
                 \<and> (\<forall>u\<in>set (Node_get_values nd a). \<forall>z. num_of u = Some z \<longrightarrow>
                        \<bar>x - y\<bar> < \<bar>z - y\<bar> \<or> (\<bar>x - y\<bar> = \<bar>z - y\<bar> \<and> x \<le> z))))"
proof (intro conjI impI)
  assume "map_of (missing_value_policy t) a = None"
  with assms show "Node_get_attribute_value_for_node t nd r = Inl AssertionError"
    by (simp add: Node_get_attribute_value_for_node_def)
next
  assume "map_of (missing_value_policy t) a = Some USE_NEAREST"
    and "map_of (header_types t) a = Some NOM"
  with assms show "Node_get_attribute_value_for_node t nd r = Inl AssertionError"
    by (simp add: Node_get_attribute_value_for_node_def USE_NEAREST_nonempty)
next
  assume pol: "map_of (missing_value_policy t) a = Some USE_NEAREST"
    and ty: "map_of (header_types t) a \<in> {Some DIS, Some CON}"
    and y: "num_of q = Some y"
    and ne: "Node_get_values nd a \<noteq> []"
    and nums: "\<forall>u\<in>set (Node_get_values nd a). num_of u \<noteq> None"
  from nearest_loop_min [OF nums y, of None] ne obtain mb where
    loop: "nearest_loop None (Node_get_values nd a) q = Inr (Some mb)"
    and mem: "\<exists>v\<in>set (Node_get_values nd a). \<exists>x. num_of v = Some x \<and> mb = (\<bar>x - y\<bar>, v)"
    and least: "\<forall>v\<in>set (Node_get_values nd a). \<forall>x. num_of v = Some x \<longrightarrow>
                  \<not> nearer (\<bar>x - y\<bar>, v) mb"
    by (cases "nearest_loop None (Node_get_values nd a) q") force+
  from mem obtain v x where v: "v \<in> set (Node_get_values nd a)" "num_of v = Some x"
    and mbv: "mb = (\<bar>x - y\<bar>, v)" by blast
  have res: "Node_get_attribute_value_for_node t nd r = Inr v"
    using assms pol ty loop mbv
    by (auto simp: Node_get_attribute_value_for_node_def USE_NEAREST_nonempty bind_err_def)
  have "\<bar>x - y\<bar> < \<bar>z - y\<bar> \<or> (\<bar>x - y\<bar> = \<bar>z - y\<bar> \<and> x \<le> z)"
    if "u \<in> set (Node_get_values nd a)" "num_of u = Some z" for u z
  proof -
    from least that have "\<not> nearer (\<bar>z - y\<bar>, u) (\<bar>x - y\<bar>, v)" by (simp add: mbv)
    with v(2) that(2) show ?thesis by (auto simp: nearer_def)
  qed
  with res v show "\<exists>v x. Node_get_attribute_value_for_node t nd r = Inr v
                 \<and> v \<in> set (Node_get_values nd a) \<and> num_of v = Some x
                 \<and> (\<forall>u\<in>set (Node_get_values nd a). \<forall>z. num_of u = Some z \<longrightarrow>
                        \<bar>x - y\<bar> < \<bar>z - y\<bar> \<or> (\<bar>x - y\<bar> = \<bar>z - y\<bar> \<and> x \<le> z))"
    by blast
qed

lemma demo_node2_values: "Node_get_values demo_node2 ''a'' = [VInt 9, VInt 3]"
  by (simp add: demo_node2_eq Node_get_values_def dd_get_def)

text \<open>
  The root of the example tree knows the values \<open>9\<close> and \<open>3\<close> of \<open>a\<close>, encountered in this
  order. For the query \<open>6\<close> both are at distance \<open>3\<close>; with the use-nearest policy the value
  used is \<open>3\<close>, not \<open>9\<close>, the first one encountered.
\<close>

theorem use_nearest_not_first_encountered:
  "Node_get_values demo_node2 ''a'' = [VInt 9, VInt 3]
   \<and> \<bar>9 - 6\<bar> = \<bar>3 - (6 :: real)\<bar>
   \<and> Node_get_attribute_value_for_node
         (demo_tree\<lparr>missing_value_policy := [(''a'', USE_NEAREST)]\<rparr>) demo_node2
         [(''a'', VInt 6)] = Inr (VInt 3)"
  unfolding demo_node2_eq
  by (simp add: Node_get_values_def dd_get_def Node_get_attribute_value_for_node_def
        demo_tree_def USE_NEAREST_def bind_err_def nearer_def)

text \<open>
  At the same node the query \<open>6\<close> fails without a policy, and with the policy when \<open>a\<close> is
  declared nominal; the query \<open>7\<close> is answered by \<open>9\<close>.
\<close>

theorem use_nearest_least_value_witness:
  "attr_name (stats demo_node2) = Some ''a''
   \<and> VInt 6 \<notin> set (Node_get_values demo_node2 ''a'')
   \<and> Node_get_attribute_value_for_node demo_tree demo_node2 [(''a'', VInt 6)]
       = Inl AssertionError
   \<and> Node_get_attribute_value_for_node
         (demo_tree\<lparr>missing_value_policy := [(''a'', USE_NEAREST)],
                      header_types := [(''a'', NOM), (''cls'', NOM)]\<rparr>) demo_node2
         [(''a'', VInt 6)] = Inl AssertionError
   \<and> Node_get_attribute_value_for_node
         (demo_tree\<lparr>missing_value_policy := [(''a'', USE_NEAREST)]\<rparr>) demo_node2
         [(''a'', VInt 7)] = Inr (VInt 9)"
proof -
  have a: "attr_name (stats demo_node2) = Some ''a''" by (simp add: demo_node2_eq)
  have r6: "map_of [(''a'', VInt 6)] ''a'' = Some (VInt 6)" by simp
  have r7: "map_of [(''a'', VInt 7)] ''a'' = Some (VInt 7)" by simp
  have n6: "VInt 6 \<notin> set (Node_get_values demo_node2 ''a'')"
    by (simp add: demo_node2_values)
  have n7: "VInt 7 \<notin> set (Node_get_values demo_node2 ''a'')"
    by (simp add: demo_node2_values)
  have 1: "Node_get_attribute_value_for_node demo_tree demo_node2 [(''a'', VInt 6)]
             = Inl AssertionError"
    using use_nearest_least_value [OF a r6 n6, of demo_tree] by (simp add: demo_tree_def)
  have 2: "Node_get_attribute_value_for_node
             (demo_tree\<lparr>missing_value_policy := [(''a'', USE_NEAREST)],
                          header_types := [(''a'', NOM), (''cls'', NOM)]\<rparr>) demo_node2
             [(''a'', VInt 6)] = Inl AssertionError"
    using use_nearest_least_value [OF a r6 n6,
            of "demo_tree\<lparr>missing_value_policy := [(''a'', USE_NEAREST)],
                             header_types := [(''a'', NOM), (''cls'', NOM)]\<rparr>"]
    by simp
  from use_nearest_least_value [OF a r7 n7,
            of "demo_tree\<lparr>missing_value_policy := [(''a'', USE_NEAREST)]\<rparr>" 7]
  obtain v x where v: "Node_get_attribute_value_for_node
               (demo_tree\<lparr>missing_value_policy := [(''a'', USE_NEAREST)]\<rparr>) demo_node2
               [(''a'', VInt 7)] = Inr v"
      "v \<in> set (Node_get_values demo_node2 ''a'')" "num_of v = Some x"
    and least: "\<forall>u\<in>set (Node_get_values demo_node2 ''a''). \<forall>z. num_of u = Some z \<longrightarrow>
                  \<bar>x - 7\<bar> < \<bar>z - 7\<bar> \<or> (\<bar>x - 7\<bar> = \<bar>z - 7\<bar> \<and> x \<le> z)"
    by (auto simp: demo_tree_def demo_node2_values)
  from v(2,3) least have "v = VInt 9" by (auto simp: demo_node2_values)
  with a n6 1 2 v(1) show ?thesis by simp
qed


section \<open>Updating a node that has split\<close>

lemma split_node_not_ready:
  assumes "truthy (attr_name (stats nd))"
    and "\<not> is_continuous_class t \<Longrightarrow> 0 < total (class_ddist (stats nd))"
  shows "Node_ready_to_split t nd = Inr False"
proof (cases "is_continuous_class t")
  case True
  with assms(1) show ?thesis
    by (auto simp: Node_ready_to_split_def Let_def split: option.splits)
next
  case False
  with assms(2) have "0 < total (class_ddist (stats nd))" by simp
  from DDist_best_prob_eq [OF this]
  obtain bp where "DDist_best_prob (class_ddist (stats nd)) = Inr bp" by blast
  with False assms(1) show ?thesis
    by (auto simp: Node_ready_to_split_def Let_def bind_err_def split: option.splits)
qed

lemma update_here_split:
  assumes "attr_name (stats nd) = Some a" and "a \<noteq> []"
    and "map_of r (class_attribute_name t) = Some cv"
    and "is_continuous_class t \<longrightarrow> num_of cv \<noteq> None"
  shows "\<exists>s'. update_here t nd r lc = (None, Node s' (branches nd), lc)
           \<and> node_n s' = node_n (stats nd) + 1 \<and> attr_name s' = Some a"
proof -
  define x where "x = (case num_of cv of None \<Rightarrow> 0 | Some y \<Rightarrow> y)"
  define s0 where "s0 = (stats nd)\<lparr>node_n := node_n (stats nd) + 1\<rparr>"
  define s1 where "s1 = (if is_continuous_class t
                          then s0\<lparr>class_cdist := CDist_iadd (class_cdist s0) x\<rparr>
                          else s0\<lparr>class_ddist := DDist_add (class_ddist s0) cv 1\<rparr>)"
  define s2 where "s2 = update_attrs (is_continuous_class t) (class_attribute_name t) cv x r s1"
  have n: "node_n s2 = node_n (stats nd) + 1"
    by (simp add: s2_def s1_def s0_def update_attrs_keeps)
  have an: "attr_name s2 = Some a"
    using assms(1) by (simp add: s2_def s1_def s0_def update_attrs_keeps)
  have tot: "\<not> is_continuous_class t \<Longrightarrow> 0 < total (class_ddist s2)"
    by (simp add: s2_def s1_def s0_def update_attrs_keeps DDist_add_def)
  have "Node_ready_to_split t (Node s2 (branches nd)) = Inr False"
    using an assms(2) tot by (intro split_node_not_ready) (simp_all add: truthy_def)
  then have "update_here t nd r lc = (None, Node s2 (branches nd), lc)"
    using assms(3,4) unfolding update_here_def Let_def s2_def s1_def s0_def x_def
    by (cases "is_continuous_class t") auto
  with n an show ?thesis by blast
qed

text \<open>
  Claim C4. For a node that has split on the attribute \<open>a\<close>, \<open>Node.update\<close> on a record with
  the class value (a number if the class is continuous) and the value \<open>v\<close> of \<open>a\<close> counts the
  record at the node and then: if the node has a child for \<open>v\<close>, it deletes \<open>a\<close> from the record
  and updates that child with the rest, the node keeping its other children; if it has no
  child for \<open>v\<close>, it deletes \<open>a\<close> from the record and raises \<open>KeyError\<close>, with its children and
  the leaf count as they were, so no child is created for the new value.
\<close>

theorem Node_update_split_forwards_or_fails:
  assumes "attr_name (stats nd) = Some a" and "a \<noteq> []"
    and "map_of r (class_attribute_name t) = Some cv"
    and "is_continuous_class t \<longrightarrow> num_of cv \<noteq> None"
    and "map_of r a = Some v"
  shows "\<exists>s'. node_n s' = node_n (stats nd) + 1 \<and> attr_name s' = Some a
           \<and> (case map_of (branches nd) v of
                 None \<Rightarrow>
                   Node_update t nd r lc
                     = (Some KeyError, Node s' (branches nd), AList.delete a r, lc)
               | Some child \<Rightarrow>
                   Node_update t nd r lc
                     = (case Node_update t child (AList.delete a r) lc of
                          (res, child', r', lc') \<Rightarrow>
                            (res, Node s' (AList.update v child' (branches nd)), r', lc')))"
proof -
  from update_here_split [OF assms(1-4), of lc] obtain s' where
    uh: "update_here t nd r lc = (None, Node s' (branches nd), lc)"
    and n: "node_n s' = node_n (stats nd) + 1" and an: "attr_name s' = Some a"
    by blast
  have eq: "Node_update t nd r lc
          = (case map_of (branches nd) v of
               None \<Rightarrow> (Some KeyError, Node s' (branches nd), AList.delete a r, lc)
             | Some child \<Rightarrow>
                 (case Node_update t child (AList.delete a r) lc of
                    (res, child', r', lc') \<Rightarrow>
                      (res, Node s' (AList.update v child' (branches nd)), r', lc')))"
    by (subst Node_update.simps)
       (simp add: uh an assms(2,5) split: option.splits del: Node_update.simps)
  have "case map_of (branches nd) v of
          None \<Rightarrow>
            Node_update t nd r lc
              = (Some KeyError, Node s' (branches nd), AList.delete a r, lc)
        | Some child \<Rightarrow>
            Node_update t nd r lc
              = (case Node_update t child (AList.delete a r) lc of
                   (res, child', r', lc') \<Rightarrow>
                     (res, Node s' (AList.update v child' (branches nd)), r', lc'))"
    by (cases "map_of (branches nd) v") (simp_all add: eq del: Node_update.simps)
  with n an show ?thesis by blast
qed

lemma demo_child3_update:
  "Node_update demo_tree
     (Node \<lparr>node_n = 1, attr_name = None, attr_value_counts = [],
             attr_value_count_totals = [], attr_class_value_counts = [],
             class_ddist = \<lparr>counts = [(VStr ''y'', 1)], total = 1\<rparr>,
             attr_value_cdist = [], class_cdist = CDist_clear\<rparr> [])
     [(''cls'', VStr ''y'')] 1
   = (None,
      Node \<lparr>node_n = 2, attr_name = None, attr_value_counts = [],
             attr_value_count_totals = [], attr_class_value_counts = [],
             class_ddist = \<lparr>counts = [(VStr ''y'', 2)], total = 2\<rparr>,
             attr_value_cdist = [], class_cdist = CDist_clear\<rparr> [],
      [(''cls'', VStr ''y'')], 1)"
  by (simp add: demo_tree_def update_here_def DDist_add_def incr_def get0_def
        Node_ready_to_split_def DDist_best_prob_def DDist_probs_def bind_err_def fdiv_def
        truthy_def Let_def)

text \<open>
  The root of the example tree forwards the record \<open>{a: 3, cls: y}\<close> without \<open>a\<close> to its child
  for \<open>3\<close>, which then has two samples.
\<close>

theorem Node_update_split_forwards_or_fails_witness:
  "attr_name (stats demo_node2) = Some ''a''
   \<and> map_of [(''a'', VInt 3), (''cls'', VStr ''y'')] (class_attribute_name demo_tree)
       = Some (VStr ''y'')
   \<and> \<not> is_continuous_class demo_tree
   \<and> fst (Node_update demo_tree demo_node2 [(''a'', VInt 3), (''cls'', VStr ''y'')] 1) = None
   \<and> map_option (\<lambda>c. node_n (stats c))
         (map_of (branches (fst (snd (Node_update demo_tree demo_node2
                                         [(''a'', VInt 3), (''cls'', VStr ''y'')] 1))))
            (VInt 3)) = Some 2
   \<and> fst (snd (snd (Node_update demo_tree demo_node2
                          [(''a'', VInt 3), (''cls'', VStr ''y'')] 1)))
       = [(''cls'', VStr ''y'')]"
proof -
  have a: "attr_name (stats demo_node2) = Some ''a''" by (simp add: demo_node2_eq)
  have ne: "''a'' \<noteq> []" by simp
  have c: "map_of [(''a'', VInt 3), (''cls'', VStr ''y'')] (class_attribute_name demo_tree)
             = Some (VStr ''y'')" by (simp add: demo_tree_def)
  have d: "\<not> is_continuous_class demo_tree" by (simp add: demo_tree_def)
  then have d': "is_continuous_class demo_tree \<longrightarrow> num_of (VStr ''y'') \<noteq> None" by simp
  have v: "map_of [(''a'', VInt 3), (''cls'', VStr ''y'')] ''a'' = Some (VInt 3)" by simp
  have b: "map_of (branches demo_node2) (VInt 3)
             = Some (Node \<lparr>node_n = 1, attr_name = None, attr_value_counts = [],
                 attr_value_count_totals = [], attr_class_value_counts = [],
                 class_ddist = \<lparr>counts = [(VStr ''y'', 1)], total = 1\<rparr>,
                 attr_value_cdist = [], class_cdist = CDist_clear\<rparr> [])"
    by (simp add: demo_node2_eq)
  have del: "AList.delete ''a'' [(''a'', VInt 3), (''cls'', VStr ''y'')] = [(''cls'', VStr ''y'')]"
    by simp
  from Node_update_split_forwards_or_fails [OF a ne c d' v, of 1]
  obtain s' where
    "Node_update demo_tree demo_node2 [(''a'', VInt 3), (''cls'', VStr ''y'')] 1
       = (None,
          Node s' (AList.update (VInt 3)
                     (Node \<lparr>node_n = 2, attr_name = None, attr_value_counts = [],
                        attr_value_count_totals = [], attr_class_value_counts = [],
                        class_ddist = \<lparr>counts = [(VStr ''y'', 2)], total = 2\<rparr>,
                        attr_value_cdist = [], class_cdist = CDist_clear\<rparr> [])
                     (branches demo_node2)),
          [(''cls'', VStr ''y'')], 1)"
    unfolding b del option.case demo_child3_update prod.case by blast
  then show ?thesis
    using a c d by (simp add: demo_node2_eq del: Node_update.simps)
qed

text \<open>
  The root of the example tree has split on \<open>a\<close> with children for \<open>9\<close> and \<open>3\<close>. Its update
  with the record \<open>{a: 6, cls: x}\<close>, whose value of \<open>a\<close> it has never seen, raises \<open>KeyError\<close>
  and leaves it with the same two children.
\<close>

theorem Node_update_unseen_value_fails:
  "map_of (branches demo_node2) (VInt 6) = None
   \<and> VInt 6 \<notin> set (Node_get_values demo_node2 ''a'')
   \<and> fst (Node_update demo_tree demo_node2 [(''a'', VInt 6), (''cls'', VStr ''x'')] 1)
       = Some KeyError
   \<and> map fst (branches (fst (snd (Node_update demo_tree demo_node2
                                      [(''a'', VInt 6), (''cls'', VStr ''x'')] 1))))
       = [VInt 9, VInt 3]"
  unfolding demo_node2_eq
  by (simp add: demo_tree_def update_here_def Node_init_def DDist_add_def
        DDist_clear_def incr_def get0_def incr2_def incr3_def dd_get_def
        Node_ready_to_split_def DDist_best_prob_def DDist_probs_def bind_err_def fdiv_def
        truthy_def Let_def Node_get_values_def)


section \<open>The caller's record\<close>

text \<open>
  Claim C9. \<open>Tree.update(r)\<close> and \<open>Tree.predict(r)\<close> leave the caller's record \<open>r\<close>, the object
  at the reference \<open>p\<close>, unchanged, and every other object that existed: \<open>Tree.update\<close> only
  appends to the store the copy, as \<open>Node.update\<close> has left it after its deletions (or
  nothing, when the class attribute is missing and the assertion fails), and \<open>Tree.predict\<close>
  only appends the copy.
\<close>

theorem Tree_update_predict_keep_record:
  assumes "p < length h"
  shows "snd (snd (snd (Tree_update t root_node p h)))
           = (if map_of (h ! p) (class_attribute_name t) = None then h
              else h @ [fst (snd (snd (Node_update t root_node (h ! p) (leaf_count t))))])
       \<and> snd (snd (snd (Tree_update t root_node p h))) ! p = h ! p
       \<and> snd (Tree_predict t root_node p h) = h @ [h ! p]
       \<and> snd (Tree_predict t root_node p h) ! p = h ! p"
  using assms
  by (simp add: Tree_update_def Tree_predict_def dict_copy_def Node_update_ref_def
        Node_predict_ref_def nth_append split: prod.splits del: Node_update.simps Node_predict.simps)

lemma demo_node2_update3:
  "fst (snd (snd (Node_update demo_tree demo_node2 [(''a'', VInt 3), (''cls'', VStr ''y'')] 0)))
     = [(''cls'', VStr ''y'')]"
  unfolding demo_node2_eq
  by (simp add: demo_tree_def update_here_def Node_init_def DDist_add_def
        DDist_clear_def incr_def get0_def incr2_def incr3_def dd_get_def
        Node_ready_to_split_def DDist_best_prob_def DDist_probs_def bind_err_def fdiv_def
        truthy_def Let_def)

text \<open>
  \<open>Node.update\<close> itself does change the object it is given: at the root of the example tree,
  the record \<open>{a: 3, cls: y}\<close> has lost \<open>a\<close> afterwards.
\<close>

lemma Node_update_ref_mutates:
  "snd (snd (snd (Node_update_ref demo_tree demo_node2 0 0
                    [[(''a'', VInt 3), (''cls'', VStr ''y'')]])))
     = [[(''cls'', VStr ''y'')]]"
  using demo_node2_update3
  by (simp add: Node_update_ref_def case_prod_beta del: Node_update.simps)

text \<open>
  With the same root and record, the store holds after \<open>Tree.update\<close> the record as it was,
  and the copy without \<open>a\<close>.
\<close>

theorem Tree_update_predict_keep_record_witness:
  "(0 :: nat) < length [[(''a'', VInt 3), (''cls'', VStr ''y'')]]
   \<and> snd (snd (snd (Tree_update demo_tree demo_node2 0
                       [[(''a'', VInt 3), (''cls'', VStr ''y'')]])))
       = [[(''a'', VInt 3), (''cls'', VStr ''y'')], [(''cls'', VStr ''y'')]]
   \<and> snd (Tree_predict demo_tree demo_node2 0 [[(''a'', VInt 3), (''cls'', VStr ''y'')]])
       = [[(''a'', VInt 3), (''cls'', VStr ''y'')], [(''a'', VInt 3), (''cls'', VStr ''y'')]]"
proof -
  have c: "map_of ([[(''a'', VInt 3), (''cls'', VStr ''y'')]] ! 0) (class_attribute_name demo_tree)
             \<noteq> None" by (simp add: demo_tree_def)
  have lc: "leaf_count demo_tree = 0" by (simp add: demo_tree_def)
  from Tree_update_predict_keep_record
         [of 0 "[[(''a'', VInt 3), (''cls'', VStr ''y'')]]" demo_tree demo_node2] c
  show ?thesis
    by (simp add: lc demo_node2_update3 del: Node_update.simps Node_predict.simps)
qed


section \<open>The sample count and the class distribution of a node\<close>

lemma incr2_keys: "fst ` set (incr2 an av d) = insert an (fst ` set d)"
  by (simp add: incr2_def dom_update)

lemma update_attrs_class_free:
  "ca \<notin> fst ` set (attr_value_counts s)
   \<Longrightarrow> ca \<notin> fst ` set (attr_value_counts (update_attrs ic ca cv x items s))"
  by (induction ic ca cv x items s rule: update_attrs.induct) (simp_all add: incr2_keys)

lemma best_attr_loop_mem:
  "best_attr_loop t nd best as = Inr (Some r)
   \<Longrightarrow> snd r \<in> set as \<or> (\<exists>r'. best = Some r' \<and> snd r' = snd r)"
proof (induction as arbitrary: best)
  case Nil
  then show ?case by simp
next
  case (Cons a as)
  from Cons.prems obtain g where
    "best_attr_loop t nd (max_best best (g, a)) as = Inr (Some r)"
    by (auto simp: bind_err_def split: sum.splits)
  from Cons.IH [OF this] show ?case
    by (auto simp: max_best_def split: option.splits if_splits)
qed

lemma best_splitting_attr_mem:
  assumes "Node_get_best_splitting_attr t nd = Inr (Some a)"
  shows "a \<in> fst ` set (attr_value_counts (stats nd))"
proof -
  from assms obtain r where
    "best_attr_loop t nd None (map fst (attr_value_counts (stats nd))) = Inr (Some r)"
    and "snd r = a"
    by (auto simp: Node_get_best_splitting_attr_def bind_err_def split: sum.splits)
  with best_attr_loop_mem [of t nd None "map fst (attr_value_counts (stats nd))" r]
  show ?thesis by auto
qed

lemma make_children_mem:
  "make_children avs bs lc = (bs', lc') \<Longrightarrow> c \<in> snd ` set bs'
   \<Longrightarrow> c \<in> snd ` set bs \<or> c = Node_init None"
proof (induction avs arbitrary: bs lc)
  case Nil
  then show ?case by simp
next
  case (Cons av avs)
  from Cons.prems have
    "make_children avs (AList.update av (Node_init None) bs) (lc + 1) = (bs', lc')" by simp
  from Cons.IH [OF this Cons.prems(2)]
  have "c \<in> snd ` set (AList.update av (Node_init None) bs) \<or> c = Node_init None" .
  moreover have "snd ` set (AList.update av (Node_init None) bs)
                   \<subseteq> insert (Node_init None) (snd ` set bs)"
    by (induction bs) auto
  ultimately show ?case by auto
qed

lemma update_values_subset: "snd ` set (AList.update k v al) \<subseteq> insert v (snd ` set al)"
  by (induction al) auto

lemma mean_count_iadd: "mean_count (CDist_iadd c x) = mean_count c + 1"
  by (simp add: CDist_iadd_def Let_def split: option.splits)

lemma update_here_cases:
  assumes "map_of r (class_attribute_name t) = Some cv"
    and "is_continuous_class t \<longrightarrow> num_of cv \<noteq> None"
  shows "\<exists>s2. node_n s2 = node_n (stats nd) + 1
           \<and> (if is_continuous_class t then mean_count (class_cdist s2)
                else total (class_ddist s2))
               = (if is_continuous_class t then mean_count (class_cdist (stats nd))
                  else total (class_ddist (stats nd))) + 1
           \<and> attr_name s2 = attr_name (stats nd)
           \<and> (class_attribute_name t \<notin> fst ` set (attr_value_counts (stats nd))
                \<longrightarrow> class_attribute_name t \<notin> fst ` set (attr_value_counts s2))
           \<and> update_here t nd r lc
               = (case Node_ready_to_split t (Node s2 (branches nd)) of
                    Inl e \<Rightarrow> (Some e, Node s2 (branches nd), lc)
                  | Inr ready \<Rightarrow>
                      if ready then
                        (case Node_get_best_splitting_attr t (Node s2 (branches nd)) of
                           Inl e \<Rightarrow> (Some e, Node s2 (branches nd), lc)
                         | Inr best \<Rightarrow>
                             (case make_children
                                     (map fst (case best of
                                                 None \<Rightarrow> []
                                               | Some a \<Rightarrow> dd_get (attr_value_counts s2) a))
                                     (branches nd) (lc - 1) of
                                (bs, lc') \<Rightarrow> (None, Node (s2\<lparr>attr_name := best\<rparr>) bs, lc')))
                      else (None, Node s2 (branches nd), lc))"
proof -
  define x where "x = (case num_of cv of None \<Rightarrow> 0 | Some y \<Rightarrow> y)"
  define s0 where "s0 = (stats nd)\<lparr>node_n := node_n (stats nd) + 1\<rparr>"
  define s1 where "s1 = (if is_continuous_class t
                          then s0\<lparr>class_cdist := CDist_iadd (class_cdist s0) x\<rparr>
                          else s0\<lparr>class_ddist := DDist_add (class_ddist s0) cv 1\<rparr>)"
  define s2 where "s2 = update_attrs (is_continuous_class t) (class_attribute_name t) cv x r s1"
  have 1: "node_n s2 = node_n (stats nd) + 1"
    by (simp add: s2_def s1_def s0_def update_attrs_keeps)
  have 2: "(if is_continuous_class t then mean_count (class_cdist s2)
            else total (class_ddist s2))
           = (if is_continuous_class t then mean_count (class_cdist (stats nd))
              else total (class_ddist (stats nd))) + 1"
    by (simp add: s2_def s1_def s0_def update_attrs_keeps mean_count_iadd DDist_add_def)
  have 3: "attr_name s2 = attr_name (stats nd)"
    by (simp add: s2_def s1_def s0_def update_attrs_keeps)
  have 4: "class_attribute_name t \<notin> fst ` set (attr_value_counts (stats nd))
             \<longrightarrow> class_attribute_name t \<notin> fst ` set (attr_value_counts s2)"
  proof
    assume "class_attribute_name t \<notin> fst ` set (attr_value_counts (stats nd))"
    then have "class_attribute_name t \<notin> fst ` set (attr_value_counts s1)"
      by (simp add: s1_def s0_def)
    then show "class_attribute_name t \<notin> fst ` set (attr_value_counts s2)"
      unfolding s2_def by (rule update_attrs_class_free)
  qed
  have 5: "update_here t nd r lc
               = (case Node_ready_to_split t (Node s2 (branches nd)) of
                    Inl e \<Rightarrow> (Some e, Node s2 (branches nd), lc)
                  | Inr ready \<Rightarrow>
                      if ready then
                        (case Node_get_best_splitting_attr t (Node s2 (branches nd)) of
                           Inl e \<Rightarrow> (Some e, Node s2 (branches nd), lc)
                         | Inr best \<Rightarrow>
                             (case make_children
                                     (map fst (case best of
                                                 None \<Rightarrow> []
                                               | Some a \<Rightarrow> dd_get (attr_value_counts s2) a))
                                     (branches nd) (lc - 1) of
                                (bs, lc') \<Rightarrow> (None, Node (s2\<lparr>attr_name := best\<rparr>) bs, lc')))
                      else (None, Node s2 (branches nd), lc))"
    using assms unfolding update_here_def Let_def s2_def s1_def s0_def x_def
    by (cases "is_continuous_class t") auto
  from 1 2 3 4 5 show ?thesis by blast
qed

lemma fresh_node_ok: "count_ok t (Node_init a)" "a \<noteq> Some ca \<Longrightarrow> class_free ca (Node_init a)"
  by (simp_all add: Node_init_def DDist_clear_def CDist_clear_def)

lemma count_ok_stats:
  "count_ok t nd \<longleftrightarrow>
     node_n (stats nd) = (if is_continuous_class t then mean_count (class_cdist (stats nd))
                          else total (class_ddist (stats nd)))
     \<and> (\<forall>c\<in>snd ` set (branches nd). count_ok t c)"
  by (cases nd) auto

lemma class_free_stats:
  "class_free ca nd \<longleftrightarrow>
     attr_name (stats nd) \<noteq> Some ca \<and> ca \<notin> fst ` set (attr_value_counts (stats nd))
     \<and> (\<forall>c\<in>snd ` set (branches nd). class_free ca c)"
  by (cases nd) auto

lemma update_here_inv:
  assumes cls: "map_of r (class_attribute_name t) = Some cv"
      "is_continuous_class t \<longrightarrow> num_of cv \<noteq> None"
    and uh: "update_here t nd r lc = (res, nd1, lc1)"
    and ok: "count_ok t nd" "class_free (class_attribute_name t) nd"
  shows "count_ok t nd1 \<and> class_free (class_attribute_name t) nd1"
proof -
  let ?ca = "class_attribute_name t"
  from update_here_cases [OF cls, of nd lc] obtain s2 where
    n: "node_n s2 = node_n (stats nd) + 1"
    and c: "(if is_continuous_class t then mean_count (class_cdist s2)
             else total (class_ddist s2))
            = (if is_continuous_class t then mean_count (class_cdist (stats nd))
               else total (class_ddist (stats nd))) + 1"
    and a: "attr_name s2 = attr_name (stats nd)"
    and k: "?ca \<notin> fst ` set (attr_value_counts (stats nd))
              \<longrightarrow> ?ca \<notin> fst ` set (attr_value_counts s2)"
    and eq: "update_here t nd r lc
               = (case Node_ready_to_split t (Node s2 (branches nd)) of
                    Inl e \<Rightarrow> (Some e, Node s2 (branches nd), lc)
                  | Inr ready \<Rightarrow>
                      if ready then
                        (case Node_get_best_splitting_attr t (Node s2 (branches nd)) of
                           Inl e \<Rightarrow> (Some e, Node s2 (branches nd), lc)
                         | Inr best \<Rightarrow>
                             (case make_children
                                     (map fst (case best of
                                                 None \<Rightarrow> []
                                               | Some a \<Rightarrow> dd_get (attr_value_counts s2) a))
                                     (branches nd) (lc - 1) of
                                (bs, lc') \<Rightarrow> (None, Node (s2\<lparr>attr_name := best\<rparr>) bs, lc')))
                      else (None, Node s2 (branches nd), lc))"
    by blast
  from ok have cnt0: "node_n (stats nd)
        = (if is_continuous_class t then mean_count (class_cdist (stats nd))
           else total (class_ddist (stats nd)))"
    and ch_ok: "\<forall>c\<in>snd ` set (branches nd). count_ok t c"
    and an0: "attr_name (stats nd) \<noteq> Some ?ca"
    and k0: "?ca \<notin> fst ` set (attr_value_counts (stats nd))"
    and ch_cf: "\<forall>c\<in>snd ` set (branches nd). class_free ?ca c"
    by (simp_all add: count_ok_stats [of t nd] class_free_stats [of ?ca nd])
  from n c cnt0 have cnt2: "node_n s2
        = (if is_continuous_class t then mean_count (class_cdist s2)
           else total (class_ddist s2))" by simp
  from k k0 have k2: "?ca \<notin> fst ` set (attr_value_counts s2)" by simp
  from a an0 have an2: "attr_name s2 \<noteq> Some ?ca" by simp
  have plain: "count_ok t (Node s2 (branches nd)) \<and> class_free ?ca (Node s2 (branches nd))"
    using cnt2 k2 an2 ch_ok ch_cf by auto
  consider (same) "nd1 = Node s2 (branches nd)"
    | (split) best bs lc' where "nd1 = Node (s2\<lparr>attr_name := best\<rparr>) bs"
        "Node_get_best_splitting_attr t (Node s2 (branches nd)) = Inr best"
        "make_children (map fst (case best of None \<Rightarrow> []
                                 | Some a \<Rightarrow> dd_get (attr_value_counts s2) a))
           (branches nd) (lc - 1) = (bs, lc')"
    using uh unfolding eq by (auto split: sum.splits if_splits prod.splits)
  then show ?thesis
  proof cases
    case same
    with plain show ?thesis by simp
  next
    case split
    have best: "best \<noteq> Some ?ca"
    proof
      assume "best = Some ?ca"
      with split(2) best_splitting_attr_mem [of t "Node s2 (branches nd)" ?ca]
      have "?ca \<in> fst ` set (attr_value_counts s2)" by simp
      with k2 show False by simp
    qed
    have ch: "c \<in> snd ` set (branches nd) \<or> c = Node_init None" if "c \<in> snd ` set bs" for c
      using make_children_mem [OF split(3) that] .
    have "count_ok t c \<and> class_free ?ca c" if "c \<in> snd ` set bs" for c
      using ch [OF that] ch_ok ch_cf fresh_node_ok(1) [of t None]
        fresh_node_ok(2) [of None ?ca] by auto
    with cnt2 k2 best split(1) show ?thesis by auto
  qed
qed

lemma delete_shorter: "map_of r a = Some v \<Longrightarrow> length (AList.delete a r) < length r"
proof -
  assume "map_of r a = Some v"
  then have "(a, v) \<in> set r" by (rule map_of_SomeD)
  then show ?thesis by (induction r) (auto simp: AList.delete_eq less_Suc_eq_le)
qed

lemma Node_update_inv:
  assumes "map_of r (class_attribute_name t) = Some cv"
    and "is_continuous_class t \<longrightarrow> num_of cv \<noteq> None"
    and "count_ok t nd" and "class_free (class_attribute_name t) nd"
  shows "count_ok t (fst (snd (Node_update t nd r lc)))
       \<and> class_free (class_attribute_name t) (fst (snd (Node_update t nd r lc)))"
  using assms
proof (induction "length r" arbitrary: nd r lc rule: less_induct)
  case less
  let ?ca = "class_attribute_name t"
  obtain res nd1 lc1 where uh: "update_here t nd r lc = (res, nd1, lc1)"
    by (cases "update_here t nd r lc") auto
  from update_here_inv [OF less.prems(1,2) uh less.prems(3,4)]
  have ok1: "count_ok t nd1" "class_free ?ca nd1" by simp_all
  show ?case
  proof (cases "\<exists>a key child. res = None \<and> attr_name (stats nd1) = Some a \<and> a \<noteq> []
                  \<and> map_of r a = Some key \<and> map_of (branches nd1) key = Some child")
    case False
    then have "fst (snd (Node_update t nd r lc)) = nd1"
      by (subst Node_update.simps)
         (auto simp: uh split: option.splits simp del: Node_update.simps)
    with ok1 show ?thesis by simp
  next
    case True
    then obtain a key child where res: "res = None"
      and a: "attr_name (stats nd1) = Some a" "a \<noteq> []"
      and key: "map_of r a = Some key" and child: "map_of (branches nd1) key = Some child"
      by blast
    obtain res' child' r' lc2 where
      rec: "Node_update t child (AList.delete a r) lc1 = (res', child', r', lc2)"
      by (cases "Node_update t child (AList.delete a r) lc1") auto
    have eq: "fst (snd (Node_update t nd r lc))
                = Node (stats nd1) (AList.update key child' (branches nd1))"
      by (subst Node_update.simps)
         (simp add: uh res a key child rec del: Node_update.simps)
    from child have mem: "child \<in> snd ` set (branches nd1)"
      by (force dest: map_of_SomeD)
    from ok1 mem have cok: "count_ok t child" "class_free ?ca child"
      by (auto simp: count_ok_stats [of t nd1] class_free_stats [of ?ca nd1])
    from ok1(2) a(1) have "a \<noteq> ?ca" by (auto simp: class_free_stats [of ?ca nd1])
    with less.prems(1) have cls': "map_of (AList.delete a r) ?ca = Some cv"
      by (simp add: delete_conv')
    from less.hyps [OF delete_shorter [OF key] cls' less.prems(2) cok, of lc1] rec
    have ok': "count_ok t child'" "class_free ?ca child'" by simp_all
    have all: "count_ok t c \<and> class_free ?ca c"
      if "c \<in> snd ` set (AList.update key child' (branches nd1))" for c
    proof -
      from that update_values_subset [of key child' "branches nd1"]
      have "c = child' \<or> c \<in> snd ` set (branches nd1)" by blast
      with ok' ok1 show ?thesis
        by (auto simp: count_ok_stats [of t nd1] class_free_stats [of ?ca nd1])
    qed
    have ch: "\<forall>vc\<in>set (AList.update key child' (branches nd1)).
                count_ok t (snd vc) \<and> class_free ?ca (snd vc)"
    proof
      fix vc
      assume "vc \<in> set (AList.update key child' (branches nd1))"
      then have "snd vc \<in> snd ` set (AList.update key child' (branches nd1))" by (rule imageI)
      from all [OF this] show "count_ok t (snd vc) \<and> class_free ?ca (snd vc)" .
    qed
    from ok1 have st: "node_n (stats nd1)
          = (if is_continuous_class t then mean_count (class_cdist (stats nd1))
             else total (class_ddist (stats nd1)))"
        "attr_name (stats nd1) \<noteq> Some ?ca"
        "?ca \<notin> fst ` set (attr_value_counts (stats nd1))"
      by (simp_all add: count_ok_stats [of t nd1] class_free_stats [of ?ca nd1])
    from st ch
    have "count_ok t (Node (stats nd1) (AList.update key child' (branches nd1)))
        \<and> class_free ?ca (Node (stats nd1) (AList.update key child' (branches nd1)))"
      by simp
    with eq show ?thesis by simp
  qed
qed

text \<open>
  Claim C3. Every node of a tree that online updates have grown from a fresh root, with
  records that have the class value (a number if the class is continuous), satisfies
  \<open>n = class_ddist.total\<close> when the class is discrete and \<open>n = class_cdist.count\<close> when it is
  continuous; also after an update that has raised an exception.
\<close>

theorem grown_count_ok:
  assumes "grown t nd"
  shows "count_ok t nd"
proof -
  from assms have "count_ok t nd \<and> class_free (class_attribute_name t) nd"
  proof (induction rule: grown.induct)
    case fresh
    show ?case using fresh_node_ok(1) [of t None] fresh_node_ok(2) [of None] by simp
  next
    case (update nd r cv lc)
    from Node_update_inv [OF update.hyps(2,3), of nd lc] update.IH show ?case by simp
  qed
  then show ?thesis by simp
qed

text \<open>
  The root of the example tree is grown by two updates; it has two samples and two class
  values counted, its children none and one.
\<close>

theorem grown_count_ok_witness:
  "grown demo_tree demo_node2
   \<and> count_ok demo_tree demo_node2
   \<and> node_n (stats demo_node2) = 2
   \<and> total (class_ddist (stats demo_node2)) = 2
   \<and> map (\<lambda>vc. (node_n (stats (snd vc)), total (class_ddist (stats (snd vc)))))
         (branches demo_node2) = [(0, 0), (1, 1)]"
proof -
  have g1: "grown demo_tree demo_node1"
    unfolding demo_node1_def
    by (rule grown.update [OF grown.fresh, where cv = "VStr ''x''"])
       (simp_all add: demo_tree_def)
  have g2: "grown demo_tree demo_node2"
    unfolding demo_node2_def
    by (rule grown.update [OF g1, where cv = "VStr ''y''"]) (simp_all add: demo_tree_def)
  from grown_count_ok [OF g2] g2 show ?thesis
    by (simp add: demo_node2_eq Node_init_def DDist_clear_def)
qed

text \<open>
  The batch builder, on the two records of the example tree, returns a node with \<open>n = 2\<close>
  whose class distribution is empty: \<open>create_decision_tree\<close> adds the number of rows to \<open>n\<close>
  and never touches \<open>class_ddist\<close>.
\<close>

theorem batch_node_count_differs:
  "Tree_build demo_tree
     [[(''a'', VInt 9), (''cls'', VStr ''x'')], [(''a'', VInt 3), (''cls'', VStr ''y'')]]
     [''a'', ''cls'']
   = Inr (SNode (Node \<lparr>node_n = 2, attr_name = Some ''a'',
                   attr_value_counts = [(''a'', [(VInt 9, 1), (VInt 3, 1)])],
                   attr_value_count_totals = [(''a'', 2)],
                   attr_class_value_counts =
                     [(''a'', [(VInt 9, [(VStr ''x'', 1)]), (VInt 3, [(VStr ''y'', 1)])])],
                   class_ddist = \<lparr>counts = [], total = 0\<rparr>,
                   attr_value_cdist = [], class_cdist = CDist_clear\<rparr> []), 2)
   \<and> \<not> is_continuous_class demo_tree"
  by (simp add: Tree_build_def demo_tree_def stop_value_of_def bind_err_def DDist_init_def
        DDist_add_def DDist_clear_def incr_def get0_def choose_attribute_def gain_def
        gain_with_def value_counts_def row_get_def entropy_def entropy_counts_def fdiv_def
        math_log_def log_2_half max_best_def get_values_def unique_def attach_def
        Node_set_leaf_dist_def Data_is_valid_def Node_init_def incr2_def incr3_def dd_get_def
        Let_def)


section \<open>The sign of the information gain\<close>























lemma log_3_half: "log 3 (1 / 2) = - log 3 2"
  by (simp add: log_divide)

lemma log_3_quarter: "log 3 (1 / 4) = - 2 * log 3 2"
proof -
  have "log 3 4 = log 3 (2 * 2)" by simp
  also have "\<dots> = log 3 2 + log 3 2" by (subst log_mult) simp_all
  finally show ?thesis by (simp add: log_divide)
qed

lemma log_3_2_less: "log 3 2 < 2 / 3"
proof -
  have a: "log 3 8 < log 3 9" by simp
  have "log 3 (2 ^ 3) = 3 * log 3 2" by (subst log_nat_power) simp_all
  then have b: "log 3 8 = 3 * log 3 2" by simp
  have "log 3 (3 ^ 2) = 2" by (subst log_nat_power) simp_all
  then have c: "log 3 9 = 2" by simp
  from a b c show ?thesis by linarith
qed

text \<open>
  With the metric \<open>entropy1\<close> the batch function \<open>gain\<close> can be negative too, because the base of
  the logarithm is the number of classes of the rows at hand: four rows with the classes
  \<open>a\<close>, \<open>b\<close> for one value of the attribute and \<open>a\<close>, \<open>c\<close> for the other have the entropy
  \<open>3/2 log\<^sub>3 2\<close>, and each half has the entropy \<open>1\<close>.
\<close>

lemma gain_entropy1_negative:
  "gain [[(''f'', VInt 0), (''cls'', VStr ''a'')], [(''f'', VInt 0), (''cls'', VStr ''b'')],
         [(''f'', VInt 1), (''cls'', VStr ''a'')], [(''f'', VInt 1), (''cls'', VStr ''c'')]]
     ''f'' ''cls'' ENTROPY1 = Inr (3 / 2 * log 3 2 - 1)
   \<and> 3 / 2 * log 3 2 - 1 < 0"
proof -
  have "3 / 2 * log 3 2 - 1 < 0" using log_3_2_less by simp
  moreover have "gain [[(''f'', VInt 0), (''cls'', VStr ''a'')], [(''f'', VInt 0), (''cls'', VStr ''b'')],
         [(''f'', VInt 1), (''cls'', VStr ''a'')], [(''f'', VInt 1), (''cls'', VStr ''c'')]]
     ''f'' ''cls'' ENTROPY1 = Inr (3 / 2 * log 3 2 - 1)"
    by (simp add: gain_def gain_with_def Let_def value_counts_def row_get_def incr_def
        get0_def entropy_def entropy_counts_def fdiv_def math_log_def bind_err_def
        log_2_half log_3_half log_3_quarter)
  ultimately show ?thesis by simp
qed

end
